theory Spec2Isabelle
  imports Main
begin

section \<open>Result-tree visitors of Robot Framework: \<open>src/robot/result/visitors.py\<close>\<close>

text \<open>
  The module defines the visitor base class, the tag setter and the filter that prunes a
  tree of suites and tests, together with the two name filters the filter is built from.
  The suite and test classes, the tag set, the tag-pattern matcher, \<open>utils.matches_any\<close>
  and the driver \<open>suite.visit\<close> live in other modules of the repository; they are modelled
  here from the specification and marked as such.
\<close>

subsection \<open>Errors\<close>

text \<open>
  The only exception the modelled code can raise: \<open>utils.matches_any\<close> iterates over the
  pattern list, and iterating over \<open>None\<close> is a \<open>TypeError\<close>.
\<close>

datatype error = TypeError

subsection \<open>Data model\<close>

text \<open>
  Modelled from the spec: the classes of tests and suites are not part of the module.
  A test has a name, a longname and an ordered collection of unique tags; a suite has a
  name, a longname, an ordered sequence of child suites and an ordered sequence of tests.
  Keywords are opaque leaves that neither visitor of the module descends into.
\<close>

datatype test = Test (test_name: string) (test_longname: string) (tags: "string list")

datatype suite =
  Suite (name: string) (longname: string) (suites: "suite list") (tests: "test list")

text \<open>The assignments \<open>suite.tests = ...\<close> and \<open>suite.suites = ...\<close>.\<close>

definition set_tests :: "suite \<Rightarrow> test list \<Rightarrow> suite" where
  "set_tests s ts = Suite (name s) (longname s) (suites s) ts"

definition set_suites :: "suite \<Rightarrow> suite list \<Rightarrow> suite" where
  "set_suites s ss = Suite (name s) (longname s) ss (tests s)"

text \<open>
  Modelled from the spec: the derived attribute \<open>test_count\<close> is the number of the suite's
  own tests plus the recursive sum over its child suites.
\<close>

fun test_count :: "suite \<Rightarrow> nat" where
  "test_count (Suite n l ss ts) = length ts + sum_list (map test_count ss)"

subsection \<open>Name matching\<close>

text \<open>
  Modelled from the spec: \<open>utils.matches_any(name, patterns, ignore)\<close> is not part of the
  module. It normalizes by stripping the ignored characters and the case, and tests the
  name against each pattern in order (glob style, \<open>*\<close> for any run of characters and \<open>?\<close>
  for one character); it is true on the first match.
\<close>

definition lower :: "char \<Rightarrow> char" where
  "lower c =
     (if (65::nat) \<le> of_char c \<and> of_char c \<le> (90::nat)
      then char_of (of_char c + (32::nat)) else c)"

definition normalize :: "string \<Rightarrow> string \<Rightarrow> string" where
  "normalize s ignore = map lower (filter (\<lambda>c. c \<notin> set ignore) s)"

fun glob :: "string \<Rightarrow> string \<Rightarrow> bool" where
  "glob [] [] = True"
| "glob [] (c # cs) = False"
| "glob (p # ps) [] = (p = CHR ''*'' \<and> glob ps [])"
| "glob (p # ps) (c # cs) =
     (if p = CHR ''*'' then glob ps (c # cs) \<or> glob (p # ps) cs
      else (p = CHR ''?'' \<or> p = c) \<and> glob ps cs)"

definition matches :: "string \<Rightarrow> string \<Rightarrow> string \<Rightarrow> bool" where
  "matches s pattern ignore = glob (normalize pattern ignore) (normalize s ignore)"

fun matches_any :: "string \<Rightarrow> string list \<Rightarrow> string \<Rightarrow> bool" where
  "matches_any s [] ignore = False"
| "matches_any s (pattern # patterns) ignore =
     (if matches s pattern ignore then True else matches_any s patterns ignore)"

subsection \<open>\<open>_NameFilter\<close>, \<open>_SuiteNameFilter\<close>, \<open>_TestNameFilter\<close>\<close>

text \<open>
  What a name filter can be constructed from: nothing (\<open>None\<close>), one bare string, or a
  list of strings.
\<close>

datatype raw_patterns = PNone | PStr string | PList "string list"

text \<open>The state of a \<open>_NameFilter\<close> is its field \<open>_patterns\<close>: \<open>None\<close> or a list.\<close>

datatype name_filter = NameFilter (patterns: "string list option")

text \<open>\<open>_NameFilter.__init__\<close>: a bare string becomes a one-element list.\<close>

definition NameFilter_init :: "raw_patterns \<Rightarrow> name_filter" where
  "NameFilter_init p =
     (case p of
        PStr s \<Rightarrow> NameFilter (Some [s])
      | PList ps \<Rightarrow> NameFilter (Some ps)
      | PNone \<Rightarrow> NameFilter None)"

text \<open>\<open>_NameFilter._match\<close>: \<open>matches_any\<close> with the underscore ignored.\<close>

definition NameFilter_match :: "name_filter \<Rightarrow> string \<Rightarrow> error + bool" where
  "NameFilter_match nf n =
     (case patterns nf of
        None \<Rightarrow> Inl TypeError
      | Some ps \<Rightarrow> Inr (matches_any n ps ''_''))"

text \<open>\<open>_NameFilter.__nonzero__\<close>: \<open>bool(self._patterns)\<close>.\<close>

definition NameFilter_nonzero :: "name_filter \<Rightarrow> bool" where
  "NameFilter_nonzero nf = (case patterns nf of None \<Rightarrow> False | Some ps \<Rightarrow> ps \<noteq> [])"

text \<open>\<open>name.split('.', 1)[1]\<close> for a name that contains a dot: what follows the first dot.\<close>

definition split_dot_1 :: "string \<Rightarrow> string" where
  "split_dot_1 n = tl (dropWhile (\<lambda>c. c \<noteq> CHR ''.'') n)"

lemma length_split_dot_1: "CHR ''.'' \<in> set n \<Longrightarrow> length (split_dot_1 n) < length n"
proof -
  assume dot: "CHR ''.'' \<in> set n"
  then have "dropWhile (\<lambda>c. c \<noteq> CHR ''.'') n \<noteq> []"
    by auto
  then have "length (tl (dropWhile (\<lambda>c. c \<noteq> CHR ''.'') n))
               < length (dropWhile (\<lambda>c. c \<noteq> CHR ''.'') n)"
    by simp
  also have "\<dots> \<le> length n"
    by (rule length_dropWhile_le)
  finally show ?thesis
    by (simp add: split_dot_1_def)
qed

text \<open>
  \<open>_SuiteNameFilter._match_longname_end\<close>: the loop returns \<open>True\<close> from inside, and falls
  off its end (returning \<open>None\<close>, which is falsy and modelled as \<open>False\<close>) as soon as the
  name holds no dot.
\<close>

function match_longname_end :: "name_filter \<Rightarrow> string \<Rightarrow> error + bool" where
  "match_longname_end nf n =
     (if CHR ''.'' \<in> set n then
        (case NameFilter_match nf n of
           Inl e \<Rightarrow> Inl e
         | Inr b \<Rightarrow> if b then Inr True else match_longname_end nf (split_dot_1 n))
      else Inr False)"
  by pat_completeness auto
termination
  by (relation "measure (\<lambda>(nf, n). length n)") (auto simp: length_split_dot_1)

declare match_longname_end.simps [simp del]

text \<open>\<open>_SuiteNameFilter.match\<close>: the name, or else the longname's ends.\<close>

definition SuiteNameFilter_match :: "name_filter \<Rightarrow> suite \<Rightarrow> error + bool" where
  "SuiteNameFilter_match nf s =
     (case NameFilter_match nf (name s) of
        Inl e \<Rightarrow> Inl e
      | Inr b \<Rightarrow> if b then Inr True else match_longname_end nf (longname s))"

text \<open>\<open>_TestNameFilter.match\<close>: the name, or else the longname.\<close>

definition TestNameFilter_match :: "name_filter \<Rightarrow> test \<Rightarrow> error + bool" where
  "TestNameFilter_match nf t =
     (case NameFilter_match nf (test_name t) of
        Inl e \<Rightarrow> Inl e
      | Inr b \<Rightarrow> if b then Inr True else NameFilter_match nf (test_longname t))"

subsection \<open>Tag patterns and tag sets\<close>

text \<open>
  The class \<open>TagPatterns\<close> is imported from another module. The filter uses two things of
  a tag-pattern matcher, its truth value and \<open>match(tags)\<close>; the matcher is modelled as the
  record of the two. The constructor \<open>TagPatterns(patterns)\<close> is a parameter, written
  \<open>mk\<close>, of every function that calls it.
\<close>

record tag_patterns =
  tp_nonzero :: bool
  tp_match :: "string list \<Rightarrow> bool"

text \<open>
  Modelled from the spec: a constructor for tag patterns that use no combinators, only
  literal and wildcard tag tokens. The matcher is truthy iff there is a pattern, and it
  matches a tag set iff some tag matches some pattern. It stands for \<open>TagPatterns\<close>
  where the model is run on concrete inputs.
\<close>

definition plain_TagPatterns :: "raw_patterns \<Rightarrow> tag_patterns" where
  "plain_TagPatterns p =
     (let ps = (case p of PNone \<Rightarrow> [] | PStr s \<Rightarrow> [s] | PList l \<Rightarrow> l)
      in \<lparr>tp_nonzero = (ps \<noteq> []),
          tp_match = (\<lambda>ts. list_ex (\<lambda>t. matches_any t ps ''_'') ts)\<rparr>)"

text \<open>
  Modelled from the spec: the tag set of a test is an ordered collection of unique
  labels. \<open>add\<close> inserts each tag if it is not already present, keeping the order;
  \<open>remove\<close> deletes every tag that matches any of the patterns (matched like names, the
  underscore ignored as everywhere in the module).
\<close>

fun Tags_add :: "string list \<Rightarrow> string list \<Rightarrow> string list" where
  "Tags_add ts [] = ts"
| "Tags_add ts (a # as) = Tags_add (if a \<in> set ts then ts else ts @ [a]) as"

definition Tags_remove :: "string list \<Rightarrow> string list \<Rightarrow> string list" where
  "Tags_remove ts ps = filter (\<lambda>t. \<not> matches_any t ps ''_'') ts"

subsection \<open>\<open>TagSetter\<close>\<close>

text \<open>
  The lists \<open>add\<close> and \<open>remove\<close> of a tag setter, either possibly empty (the spec gives
  them as ordered lists; the constructor's default \<open>None\<close> is not modelled).
\<close>

record TagSetter =
  add :: "string list"
  remove :: "string list"

definition TagSetter_nonzero :: "TagSetter \<Rightarrow> bool" where
  "TagSetter_nonzero ts = (add ts \<noteq> [] \<or> remove ts \<noteq> [])"

definition TagSetter_start_suite :: "TagSetter \<Rightarrow> suite \<Rightarrow> suite \<times> bool" where
  "TagSetter_start_suite ts s = (s, TagSetter_nonzero ts)"

definition TagSetter_start_test :: "TagSetter \<Rightarrow> test \<Rightarrow> test \<times> bool" where
  "TagSetter_start_test ts t =
     (let t1 = Test (test_name t) (test_longname t) (Tags_add (tags t) (add ts));
          t2 = Test (test_name t1) (test_longname t1) (Tags_remove (tags t1) (remove ts))
      in (t2, False))"

subsection \<open>\<open>Filter\<close>: configuration\<close>

text \<open>
  A value given to one of the four setters is either raw, or already a matcher of the
  class the setter builds (the \<open>isinstance\<close> test of the setter).
\<close>

datatype 'm setting = Raw raw_patterns | Built 'm

record Filter =
  include_suites :: name_filter
  include_tests :: name_filter
  include_tags :: tag_patterns
  exclude_tags :: tag_patterns

definition include_suites_setter :: "name_filter setting \<Rightarrow> name_filter" where
  "include_suites_setter v = (case v of Built m \<Rightarrow> m | Raw p \<Rightarrow> NameFilter_init p)"

definition include_tests_setter :: "name_filter setting \<Rightarrow> name_filter" where
  "include_tests_setter v = (case v of Built m \<Rightarrow> m | Raw p \<Rightarrow> NameFilter_init p)"

definition include_tags_setter ::
  "(raw_patterns \<Rightarrow> tag_patterns) \<Rightarrow> tag_patterns setting \<Rightarrow> tag_patterns" where
  "include_tags_setter mk v = (case v of Built m \<Rightarrow> m | Raw p \<Rightarrow> mk p)"

definition exclude_tags_setter ::
  "(raw_patterns \<Rightarrow> tag_patterns) \<Rightarrow> tag_patterns setting \<Rightarrow> tag_patterns" where
  "exclude_tags_setter mk v = (case v of Built m \<Rightarrow> m | Raw p \<Rightarrow> mk p)"

text \<open>\<open>Filter.__init__\<close>: each argument goes through its setter.\<close>

definition Filter_init ::
  "(raw_patterns \<Rightarrow> tag_patterns) \<Rightarrow> name_filter setting \<Rightarrow> name_filter setting \<Rightarrow>
     tag_patterns setting \<Rightarrow> tag_patterns setting \<Rightarrow> Filter" where
  "Filter_init mk isuites itests itags etags =
     \<lparr>include_suites = include_suites_setter isuites,
      include_tests = include_tests_setter itests,
      include_tags = include_tags_setter mk itags,
      exclude_tags = exclude_tags_setter mk etags\<rparr>"

text \<open>\<open>Filter.__nonzero__\<close>.\<close>

definition Filter_nonzero :: "Filter \<Rightarrow> bool" where
  "Filter_nonzero f =
     (NameFilter_nonzero (include_suites f) \<or> NameFilter_nonzero (include_tests f) \<or>
      tp_nonzero (include_tags f) \<or> tp_nonzero (exclude_tags f))"

subsection \<open>\<open>Filter\<close>: the test-level predicates\<close>

definition included_by_test_name :: "Filter \<Rightarrow> test \<Rightarrow> error + bool" where
  "included_by_test_name f t = TestNameFilter_match (include_tests f) t"

definition included_by_tags :: "Filter \<Rightarrow> test \<Rightarrow> error + bool" where
  "included_by_tags f t = Inr (tp_match (include_tags f) (tags t))"

definition not_excluded_by_tags :: "Filter \<Rightarrow> test \<Rightarrow> error + bool" where
  "not_excluded_by_tags f t = Inr (\<not> tp_match (exclude_tags f) (tags t))"

text \<open>
  \<open>Filter._filter\<close> is a generator over \<open>suite.tests\<close>; \<open>list(...)\<close> runs it to its end, so
  an exception of the predicate at any test is the result.
\<close>

fun filter_tests :: "(test \<Rightarrow> error + bool) \<Rightarrow> test list \<Rightarrow> error + test list" where
  "filter_tests p [] = Inr []"
| "filter_tests p (t # ts) =
     (case p t of
        Inl e \<Rightarrow> Inl e
      | Inr b \<Rightarrow>
          (case filter_tests p ts of
             Inl e \<Rightarrow> Inl e
           | Inr r \<Rightarrow> Inr (if b then t # r else r)))"

definition Filter_filter :: "suite \<Rightarrow> (test \<Rightarrow> error + bool) \<Rightarrow> error + test list" where
  "Filter_filter s p = filter_tests p (tests s)"

text \<open>\<open>Filter.end_suite\<close>: keep the child suites whose \<open>test_count\<close> is truthy.\<close>

definition Filter_end_suite :: "Filter \<Rightarrow> suite \<Rightarrow> suite" where
  "Filter_end_suite f s = set_suites s (filter (\<lambda>c. test_count c \<noteq> 0) (suites s))"

definition Filter_start_test :: "Filter \<Rightarrow> test \<Rightarrow> test \<times> bool" where
  "Filter_start_test f t = (t, False)"

text \<open>
  Each of the three statements
  \<open>if self.X: suite.tests = list(self._filter(suite, self._pred))\<close> of
  \<open>Filter.start_suite\<close>: when the criterion is configured the test list is replaced by
  the tests the predicate keeps, otherwise the suite is left as it is.
\<close>

definition narrow :: "bool \<Rightarrow> suite \<Rightarrow> (test \<Rightarrow> error + bool) \<Rightarrow> error + suite" where
  "narrow configured s p =
     (if configured then
        (case Filter_filter s p of Inl e \<Rightarrow> Inl e | Inr ts \<Rightarrow> Inr (set_tests s ts))
      else Inr s)"

subsection \<open>The visitors and the driver\<close>

text \<open>
  The two visitor classes of the module; the hooks are dispatched on the class. Both
  \<open>start_test\<close> methods return \<open>False\<close>, so the driver never descends into the keywords
  of a test, and \<open>end_test\<close> is the no-op of the base class.
\<close>

datatype visitor = FilterV Filter | TagSetterV TagSetter

definition start_test :: "visitor \<Rightarrow> test \<Rightarrow> test \<times> bool" where
  "start_test v t =
     (case v of FilterV f \<Rightarrow> Filter_start_test f t | TagSetterV ts \<Rightarrow> TagSetter_start_test ts t)"

definition end_suite :: "visitor \<Rightarrow> suite \<Rightarrow> suite" where
  "end_suite v s = (case v of FilterV f \<Rightarrow> Filter_end_suite f s | TagSetterV ts \<Rightarrow> s)"

definition visit_test :: "visitor \<Rightarrow> test \<Rightarrow> test" where
  "visit_test v t = fst (start_test v t)"

text \<open>Measures for the termination of the driver.\<close>

definition suite_filter_pending :: "Filter \<Rightarrow> nat" where
  "suite_filter_pending f = (if NameFilter_nonzero (include_suites f) then 1 else 0)"

fun visitor_pending :: "visitor \<Rightarrow> nat" where
  "visitor_pending (FilterV f) = suite_filter_pending f"
| "visitor_pending (TagSetterV ts) = 0"

text \<open>
  Modelled from the spec: the driver \<open>suite.visit(visitor)\<close> is not part of the module.
  It calls \<open>start_suite\<close>; unless that returned \<open>False\<close> it visits each test currently
  listed on the suite and then each child suite currently listed; it always calls
  \<open>end_suite\<close> last. The source mutates the tree in place; the model returns the suite as
  it is after the call. The driver is defined together with \<open>Filter.start_suite\<close> and
  \<open>Filter._filter_by_suite_name\<close>, which calls it on a derived filter.
\<close>

function visit :: "(raw_patterns \<Rightarrow> tag_patterns) \<Rightarrow> visitor \<Rightarrow> suite \<Rightarrow> error + suite"
  and visit_suites ::
    "(raw_patterns \<Rightarrow> tag_patterns) \<Rightarrow> visitor \<Rightarrow> suite list \<Rightarrow> error + suite list"
  and start_suite ::
    "(raw_patterns \<Rightarrow> tag_patterns) \<Rightarrow> visitor \<Rightarrow> suite \<Rightarrow> error + suite \<times> bool"
  and Filter_start_suite ::
    "(raw_patterns \<Rightarrow> tag_patterns) \<Rightarrow> Filter \<Rightarrow> suite \<Rightarrow> error + suite \<times> bool"
  and Filter_filter_by_suite_name ::
    "(raw_patterns \<Rightarrow> tag_patterns) \<Rightarrow> Filter \<Rightarrow> suite \<Rightarrow> error + suite \<times> bool"
where
  "visit mk v s =
     (case start_suite mk v s of
        Inl e \<Rightarrow> Inl e
      | Inr (s1, cont) \<Rightarrow>
          if cont then
            (case visit_suites mk v (suites (set_tests s1 (map (visit_test v) (tests s1)))) of
               Inl e \<Rightarrow> Inl e
             | Inr ss \<Rightarrow>
                 Inr (end_suite v (set_suites (set_tests s1 (map (visit_test v) (tests s1))) ss)))
          else Inr (end_suite v s1))"
| "visit_suites mk v [] = Inr []"
| "visit_suites mk v (c # cs) =
     (case visit mk v c of
        Inl e \<Rightarrow> Inl e
      | Inr c' \<Rightarrow>
          (case visit_suites mk v cs of
             Inl e \<Rightarrow> Inl e
           | Inr cs' \<Rightarrow> Inr (c' # cs')))"
| "start_suite mk v s =
     (case v of
        FilterV f \<Rightarrow> Filter_start_suite mk f s
      | TagSetterV ts \<Rightarrow> Inr (TagSetter_start_suite ts s))"
| "Filter_start_suite mk f s =
     (if \<not> Filter_nonzero f then Inr (s, False)
      else if NameFilter_nonzero (include_suites f) then Filter_filter_by_suite_name mk f s
      else
        (case narrow (NameFilter_nonzero (include_tests f)) s (included_by_test_name f) of
           Inl e \<Rightarrow> Inl e
         | Inr s1 \<Rightarrow>
             (case narrow (tp_nonzero (include_tags f)) s1 (included_by_tags f) of
                Inl e \<Rightarrow> Inl e
              | Inr s2 \<Rightarrow>
                  (case narrow (tp_nonzero (exclude_tags f)) s2 (not_excluded_by_tags f) of
                     Inl e \<Rightarrow> Inl e
                   | Inr s3 \<Rightarrow> Inr (s3, suites s3 \<noteq> [])))))"
| "Filter_filter_by_suite_name mk f s =
     (case SuiteNameFilter_match (include_suites f) s of
        Inl e \<Rightarrow> Inl e
      | Inr m \<Rightarrow>
          if \<not> m then Inr (set_tests s [], True)
          else
            (case visit mk
                    (FilterV (Filter_init mk (Raw (PList [])) (Built (include_tests f))
                                (Built (include_tags f)) (Built (exclude_tags f)))) s of
               Inl e \<Rightarrow> Inl e
             | Inr s' \<Rightarrow> Inr (s', False)))"
  by pat_completeness auto

lemma suites_set_tests [simp]: "suites (set_tests s ts) = suites s"
  by (simp add: set_tests_def)

lemma narrow_suites: "narrow c s p = Inr s' \<Longrightarrow> suites s' = suites s"
  by (auto simp: narrow_def split: if_splits sum.splits)

lemma match_longname_end_no_patterns: "match_longname_end (NameFilter (Some [])) n = Inr False"
proof (induction "NameFilter (Some [])" n rule: match_longname_end.induct)
  case (1 n)
  show ?case
  proof (cases "CHR ''.'' \<in> set n")
    case True
    then have "match_longname_end (NameFilter (Some [])) n
                 = match_longname_end (NameFilter (Some [])) (split_dot_1 n)"
      by (subst match_longname_end.simps) (simp add: NameFilter_match_def)
    also have "\<dots> = Inr False"
      by (rule 1 [OF True, of False]) (simp_all add: NameFilter_match_def)
    finally show ?thesis .
  next
    case False
    then show ?thesis
      by (subst match_longname_end.simps) simp
  qed
qed

lemma SuiteNameFilter_match_nonzero:
  "SuiteNameFilter_match nf s = Inr True \<Longrightarrow> NameFilter_nonzero nf"
proof (cases nf)
  case (NameFilter ps)
  assume m: "SuiteNameFilter_match nf s = Inr True"
  show ?thesis
  proof (cases ps)
    case None
    with NameFilter m show ?thesis
      by (simp add: SuiteNameFilter_match_def NameFilter_match_def)
  next
    case (Some l)
    show ?thesis
    proof (cases l)
      case Nil
      with NameFilter Some m show ?thesis
        by (simp add: SuiteNameFilter_match_def NameFilter_match_def
              match_longname_end_no_patterns)
    next
      case (Cons a list)
      with NameFilter Some show ?thesis
        by (simp add: NameFilter_nonzero_def)
    qed
  qed
qed

lemma start_suite_keeps_suites:
  shows "visit_visit_suites_start_suite_Filter_start_suite_Filter_filter_by_suite_name_dom
           (Inl (Inl (mk, v, s))) \<Longrightarrow> True"
    and "visit_visit_suites_start_suite_Filter_start_suite_Filter_filter_by_suite_name_dom
           (Inl (Inr (mk, v, cs))) \<Longrightarrow> True"
    and "visit_visit_suites_start_suite_Filter_start_suite_Filter_filter_by_suite_name_dom
           (Inr (Inl (mk, v, s))) \<Longrightarrow>
         \<forall>x. start_suite mk v s = Inr (x, True) \<longrightarrow> suites x = suites s"
    and "visit_visit_suites_start_suite_Filter_start_suite_Filter_filter_by_suite_name_dom
           (Inr (Inr (Inl (mk, f, s)))) \<Longrightarrow>
         \<forall>x. Filter_start_suite mk f s = Inr (x, True) \<longrightarrow> suites x = suites s"
    and "visit_visit_suites_start_suite_Filter_start_suite_Filter_filter_by_suite_name_dom
           (Inr (Inr (Inr (mk, f, s)))) \<Longrightarrow>
         \<forall>x. Filter_filter_by_suite_name mk f s = Inr (x, True) \<longrightarrow> suites x = suites s"
proof (induct mk v s and mk v cs and mk v s and mk f s and mk f s
       rule: visit_visit_suites_start_suite_Filter_start_suite_Filter_filter_by_suite_name.pinduct)
  case (1 mk v s)
  show ?case by simp
next
  case (2 mk v)
  show ?case by simp
next
  case (3 mk v c cs)
  show ?case by simp
next
  case (4 mk v s)
  then show ?case
    by (cases v) (auto simp: start_suite.psimps TagSetter_start_suite_def)
next
  case (5 mk f s)
  show ?case
  proof (intro allI impI)
    fix x
    assume r: "Filter_start_suite mk f s = Inr (x, True)"
    show "suites x = suites s"
    proof (cases "NameFilter_nonzero (include_suites f)")
      case True
      with r 5 show ?thesis
        by (simp add: Filter_start_suite.psimps split: if_splits)
    next
      case False
      with r 5(1) obtain s1 s2 where
        "narrow (NameFilter_nonzero (include_tests f)) s (included_by_test_name f) = Inr s1"
        "narrow (tp_nonzero (include_tags f)) s1 (included_by_tags f) = Inr s2"
        "narrow (tp_nonzero (exclude_tags f)) s2 (not_excluded_by_tags f) = Inr x"
        by (simp add: Filter_start_suite.psimps split: if_splits sum.splits)
      then show ?thesis
        using narrow_suites by metis
    qed
  qed
next
  case (6 mk f s)
  then show ?case
    by (simp add: Filter_filter_by_suite_name.psimps split: if_splits sum.splits)
qed

lemma size_suites_less: "size_list size (suites s) < size s"
  by (cases s) simp

termination visit
  apply (relation "inv_image (less_than <*lex*> less_than <*lex*> less_than)
    (\<lambda>x. case x of
       Inl (Inl (mk, v, s)) \<Rightarrow> (visitor_pending v, size s, 3::nat)
     | Inl (Inr (mk, v, cs)) \<Rightarrow> (visitor_pending v, size_list size cs, 0)
     | Inr (Inl (mk, v, s)) \<Rightarrow> (visitor_pending v, size s, 2)
     | Inr (Inr (Inl (mk, f, s))) \<Rightarrow> (suite_filter_pending f, size s, 1)
     | Inr (Inr (Inr (mk, f, s))) \<Rightarrow> (suite_filter_pending f, size s, 0))")
  subgoal by (intro wf_inv_image wf_lex_prod wf_less_than)
  subgoal by simp
  subgoal for mk v s b x y
    using start_suite_keeps_suites(3) [of mk v s] by (auto simp: size_suites_less)
  subgoal by simp
  subgoal by simp
  subgoal by simp
  subgoal by simp
  subgoal for mk f s b
    using SuiteNameFilter_match_nonzero [of "include_suites f" s]
    by (simp add: suite_filter_pending_def Filter_init_def include_suites_setter_def
          NameFilter_init_def NameFilter_nonzero_def)
  done

declare visit.simps [simp del]
declare start_suite.simps [simp del]
declare Filter_start_suite.simps [simp del]
declare Filter_filter_by_suite_name.simps [simp del]

section \<open>Notions of the specification\<close>

text \<open>
  In the words of the spec: a test satisfies the conjunction of the configured test-level
  predicates of a Filter; a criterion that is not configured asks nothing.
\<close>

definition test_ok :: "Filter \<Rightarrow> test \<Rightarrow> bool" where
  "test_ok f t =
     ((NameFilter_nonzero (include_tests f) \<longrightarrow> included_by_test_name f t = Inr True) \<and>
      (tp_nonzero (include_tags f) \<longrightarrow> included_by_tags f t = Inr True) \<and>
      (tp_nonzero (exclude_tags f) \<longrightarrow> not_excluded_by_tags f t = Inr True))"

text \<open>
  In the words of the spec: the tree in which every suite keeps the tests that satisfy the
  configured test-level predicates, and from which the child suites left with no tests
  have been removed bottom-up.
\<close>

fun narrow_tree :: "Filter \<Rightarrow> suite \<Rightarrow> suite" where
  "narrow_tree f (Suite n l ss ts) =
     Suite n l (filter (\<lambda>c. test_count c \<noteq> 0) (map (narrow_tree f) ss)) (filter (test_ok f) ts)"

text \<open>No suite below the root of the tree has \<open>test_count\<close> zero.\<close>

fun no_empty_below :: "suite \<Rightarrow> bool" where
  "no_empty_below (Suite n l ss ts) = list_all (\<lambda>c. test_count c \<noteq> 0 \<and> no_empty_below c) ss"

text \<open>At least one of the three test-level criteria is configured.\<close>

definition test_level :: "Filter \<Rightarrow> bool" where
  "test_level f =
     (NameFilter_nonzero (include_tests f) \<or> tp_nonzero (include_tags f) \<or>
      tp_nonzero (exclude_tags f))"

text \<open>
  In the words of the spec: the derived Filter, with \<open>include_suites\<close> cleared and the
  other three criteria carried over.
\<close>

definition derived :: "Filter \<Rightarrow> Filter" where
  "derived f =
     \<lparr>include_suites = NameFilter (Some []), include_tests = include_tests f,
      include_tags = include_tags f, exclude_tags = exclude_tags f\<rparr>"

text \<open>
  The tree a visit with a Filter whose \<open>include_suites\<close> is configured returns: a suite
  that matches is handed to the derived Filter, a suite that does not match loses its own
  tests and has its child suites treated in the same way; \<open>end_suite\<close> runs on both.
\<close>

fun select_tree :: "Filter \<Rightarrow> suite \<Rightarrow> suite" where
  "select_tree f (Suite n l ss ts) =
     (if SuiteNameFilter_match (include_suites f) (Suite n l ss ts) = Inr True
      then Filter_end_suite f
             (if test_level f then narrow_tree f (Suite n l ss ts)
              else Filter_end_suite f (Suite n l ss ts))
      else Filter_end_suite f (Suite n l (map (select_tree f) ss) []))"

text \<open>
  In the words of the spec: the strings the suite name filter tests after the bare name
  are the longname and what is left of it each time the leading dotted segment is
  stripped, as long as a dot remains.
\<close>

function longname_ends :: "string \<Rightarrow> string list" where
  "longname_ends n = (if CHR ''.'' \<in> set n then n # longname_ends (split_dot_1 n) else [])"
  by pat_completeness auto
termination longname_ends
  by (relation "measure length") (auto simp: length_split_dot_1)

declare longname_ends.simps [simp del]

text \<open>
  An end of a dotted name that starts at a segment boundary: the whole name, or what
  follows one of its dots.
\<close>

definition segment_end :: "string \<Rightarrow> string \<Rightarrow> bool" where
  "segment_end e n = (e = n \<or> (\<exists>pre. n = pre @ CHR ''.'' # e))"

text \<open>All tests of a tree: those of the suite, then those of its child suites.\<close>

fun all_tests :: "suite \<Rightarrow> test list" where
  "all_tests (Suite n l ss ts) = ts @ concat (map all_tests ss)"

section \<open>Properties\<close>

subsection \<open>What a visit with a Filter returns\<close>

lemma filter_tests_total:
  "(\<And>t. t \<in> set ts \<Longrightarrow> \<exists>b. p t = Inr b) \<Longrightarrow>
   filter_tests p ts = Inr (filter (\<lambda>t. p t = Inr True) ts)"
proof (induction ts)
  case Nil
  show ?case by simp
next
  case (Cons t ts)
  from Cons.prems [of t] obtain b where b: "p t = Inr b" by auto
  have "filter_tests p ts = Inr (filter (\<lambda>t. p t = Inr True) ts)"
    using Cons.prems by (intro Cons.IH) simp
  with b show ?case by simp
qed

lemma NameFilter_match_total:
  "NameFilter_nonzero nf \<Longrightarrow> \<exists>b. NameFilter_match nf n = Inr b"
  by (cases nf) (auto simp: NameFilter_nonzero_def NameFilter_match_def split: option.splits)

lemma TestNameFilter_match_total:
  "NameFilter_nonzero nf \<Longrightarrow> \<exists>b. TestNameFilter_match nf t = Inr b"
  using NameFilter_match_total [of nf "test_name t"] NameFilter_match_total [of nf "test_longname t"]
  by (auto simp: TestNameFilter_match_def)

lemma narrow_by_test_name:
  "narrow (NameFilter_nonzero (include_tests f)) s (included_by_test_name f) =
     Inr (set_tests s (filter (\<lambda>t. NameFilter_nonzero (include_tests f) \<longrightarrow>
                                  included_by_test_name f t = Inr True) (tests s)))"
proof (cases "NameFilter_nonzero (include_tests f)")
  case True
  then have "filter_tests (included_by_test_name f) (tests s) =
               Inr (filter (\<lambda>t. included_by_test_name f t = Inr True) (tests s))"
    by (intro filter_tests_total) (simp add: included_by_test_name_def TestNameFilter_match_total)
  with True show ?thesis
    by (simp add: narrow_def Filter_filter_def)
next
  case False
  then show ?thesis
    by (cases s) (simp add: narrow_def set_tests_def)
qed

lemma narrow_by_tags:
  "narrow (tp_nonzero (include_tags f)) s (included_by_tags f) =
     Inr (set_tests s (filter (\<lambda>t. tp_nonzero (include_tags f) \<longrightarrow>
                                  included_by_tags f t = Inr True) (tests s)))"
proof (cases "tp_nonzero (include_tags f)")
  case True
  then have "filter_tests (included_by_tags f) (tests s) =
               Inr (filter (\<lambda>t. included_by_tags f t = Inr True) (tests s))"
    by (intro filter_tests_total) (simp add: included_by_tags_def)
  with True show ?thesis
    by (simp add: narrow_def Filter_filter_def)
next
  case False
  then show ?thesis
    by (cases s) (simp add: narrow_def set_tests_def)
qed

lemma narrow_by_exclude:
  "narrow (tp_nonzero (exclude_tags f)) s (not_excluded_by_tags f) =
     Inr (set_tests s (filter (\<lambda>t. tp_nonzero (exclude_tags f) \<longrightarrow>
                                  not_excluded_by_tags f t = Inr True) (tests s)))"
proof (cases "tp_nonzero (exclude_tags f)")
  case True
  then have "filter_tests (not_excluded_by_tags f) (tests s) =
               Inr (filter (\<lambda>t. not_excluded_by_tags f t = Inr True) (tests s))"
    by (intro filter_tests_total) (simp add: not_excluded_by_tags_def)
  with True show ?thesis
    by (simp add: narrow_def Filter_filter_def)
next
  case False
  then show ?thesis
    by (cases s) (simp add: narrow_def set_tests_def)
qed

lemma tests_set_tests [simp]: "tests (set_tests s ts) = ts"
  by (simp add: set_tests_def)

lemma set_tests_set_tests [simp]: "set_tests (set_tests s ts) ts' = set_tests s ts'"
  by (simp add: set_tests_def)

lemma Filter_start_suite_narrows:
  assumes "Filter_nonzero f" and "\<not> NameFilter_nonzero (include_suites f)"
  shows "Filter_start_suite mk f s =
           Inr (set_tests s (filter (test_ok f) (tests s)), suites s \<noteq> [])"
proof -
  have "filter (\<lambda>t. tp_nonzero (exclude_tags f) \<longrightarrow> not_excluded_by_tags f t = Inr True)
          (filter (\<lambda>t. tp_nonzero (include_tags f) \<longrightarrow> included_by_tags f t = Inr True)
             (filter (\<lambda>t. NameFilter_nonzero (include_tests f) \<longrightarrow>
                            included_by_test_name f t = Inr True) (tests s)))
        = filter (test_ok f) (tests s)"
    by (auto simp: test_ok_def intro: filter_cong)
  then show ?thesis
    using assms
    by (simp add: Filter_start_suite.simps narrow_by_test_name narrow_by_tags narrow_by_exclude)
qed

lemma visit_suites_map:
  "(\<And>c. c \<in> set cs \<Longrightarrow> visit mk v c = Inr (g c)) \<Longrightarrow> visit_suites mk v cs = Inr (map g cs)"
  by (induction cs) simp_all

lemma visit_test_Filter [simp]: "visit_test (FilterV f) t = t"
  by (simp add: visit_test_def start_test_def Filter_start_test_def)

lemma map_visit_test_Filter [simp]: "map (visit_test (FilterV f)) ts = ts"
  by (induction ts) simp_all

lemma set_tests_same [simp]: "set_tests s (tests s) = s"
  by (cases s) (simp add: set_tests_def)

lemma visit_empty_Filter:
  "\<not> Filter_nonzero f \<Longrightarrow> visit mk (FilterV f) s = Inr (Filter_end_suite f s)"
  by (simp add: visit.simps start_suite.simps Filter_start_suite.simps end_suite_def)

lemma visit_narrowing_Filter:
  assumes "Filter_nonzero f" and "\<not> NameFilter_nonzero (include_suites f)"
  shows "visit mk (FilterV f) s = Inr (narrow_tree f s)"
proof (induction s)
  case (Suite n l ss ts)
  have start: "start_suite mk (FilterV f) (Suite n l ss ts) =
                 Inr (Suite n l ss (filter (test_ok f) ts), ss \<noteq> [])"
    using Filter_start_suite_narrows [OF assms, of mk "Suite n l ss ts"]
    by (simp add: start_suite.simps set_tests_def)
  show ?case
  proof (cases "ss = []")
    case True
    with start show ?thesis
      by (simp add: visit.simps end_suite_def Filter_end_suite_def set_suites_def)
  next
    case False
    have "visit_suites mk (FilterV f) ss = Inr (map (narrow_tree f) ss)"
      using Suite.IH by (rule visit_suites_map)
    with False start show ?thesis
      by (simp add: visit.simps end_suite_def Filter_end_suite_def set_suites_def set_tests_def)
  qed
qed

lemma derived_Filter_init:
  "Filter_init mk (Raw (PList [])) (Built (include_tests f)) (Built (include_tags f))
     (Built (exclude_tags f)) = derived f"
  by (simp add: Filter_init_def derived_def include_suites_setter_def include_tests_setter_def
        include_tags_setter_def exclude_tags_setter_def NameFilter_init_def)

lemma derived_facts:
  "\<not> NameFilter_nonzero (include_suites (derived f))"
  "Filter_nonzero (derived f) = test_level f"
  "test_ok (derived f) = test_ok f"
  by (auto simp: derived_def NameFilter_nonzero_def Filter_nonzero_def test_level_def
        test_ok_def included_by_test_name_def included_by_tags_def not_excluded_by_tags_def)

lemma match_longname_end_total: "\<exists>b. match_longname_end (NameFilter (Some ps)) n = Inr b"
proof (induction "NameFilter (Some ps)" n rule: match_longname_end.induct)
  case (1 n)
  show ?case
  proof (cases "CHR ''.'' \<in> set n")
    case dot: True
    show ?thesis
    proof (cases "matches_any n ps ''_''")
      case True
      with dot show ?thesis
        by (subst match_longname_end.simps) (auto simp: NameFilter_match_def)
    next
      case False
      have "\<exists>b. match_longname_end (NameFilter (Some ps)) (split_dot_1 n) = Inr b"
        using False by (intro 1 [OF dot, of False]) (simp_all add: NameFilter_match_def)
      with dot False show ?thesis
        by (subst match_longname_end.simps) (simp add: NameFilter_match_def)
    qed
  next
    case False
    then show ?thesis
      by (subst match_longname_end.simps) auto
  qed
qed

lemma SuiteNameFilter_match_total:
  "NameFilter_nonzero nf \<Longrightarrow> \<exists>b. SuiteNameFilter_match nf s = Inr b"
proof (cases nf)
  case (NameFilter po)
  assume "NameFilter_nonzero nf"
  with NameFilter obtain ps where ps: "po = Some ps"
    by (cases po) (auto simp: NameFilter_nonzero_def)
  show ?thesis
    using match_longname_end_total [of ps "longname s"]
    by (auto simp: NameFilter ps SuiteNameFilter_match_def NameFilter_match_def)
qed

lemma visit_matched:
  assumes "NameFilter_nonzero (include_suites f)"
    and "SuiteNameFilter_match (include_suites f) s = Inr True"
  shows "start_suite mk (FilterV f) s =
           (case visit mk (FilterV (derived f)) s of
              Inl e \<Rightarrow> Inl e | Inr s' \<Rightarrow> Inr (s', False))"
    and "visit mk (FilterV f) s =
           (case visit mk (FilterV (derived f)) s of
              Inl e \<Rightarrow> Inl e | Inr s' \<Rightarrow> Inr (Filter_end_suite f s'))"
proof -
  have nz: "Filter_nonzero f"
    using assms(1) by (simp add: Filter_nonzero_def)
  show start: "start_suite mk (FilterV f) s =
           (case visit mk (FilterV (derived f)) s of
              Inl e \<Rightarrow> Inl e | Inr s' \<Rightarrow> Inr (s', False))"
    using assms nz
    by (simp add: start_suite.simps Filter_start_suite.simps Filter_filter_by_suite_name.simps
          derived_Filter_init)
  show "visit mk (FilterV f) s =
           (case visit mk (FilterV (derived f)) s of
              Inl e \<Rightarrow> Inl e | Inr s' \<Rightarrow> Inr (Filter_end_suite f s'))"
    by (subst visit.simps) (simp add: start end_suite_def split: sum.splits)
qed

lemma visit_unmatched:
  assumes "NameFilter_nonzero (include_suites f)"
    and "SuiteNameFilter_match (include_suites f) s = Inr False"
  shows "start_suite mk (FilterV f) s = Inr (set_tests s [], True)"
    and "visit mk (FilterV f) s =
           (case visit_suites mk (FilterV f) (suites s) of
              Inl e \<Rightarrow> Inl e
            | Inr ss \<Rightarrow> Inr (Filter_end_suite f (set_suites (set_tests s []) ss)))"
proof -
  have nz: "Filter_nonzero f"
    using assms(1) by (simp add: Filter_nonzero_def)
  show start: "start_suite mk (FilterV f) s = Inr (set_tests s [], True)"
    using assms nz
    by (simp add: start_suite.simps Filter_start_suite.simps Filter_filter_by_suite_name.simps)
  show "visit mk (FilterV f) s =
           (case visit_suites mk (FilterV f) (suites s) of
              Inl e \<Rightarrow> Inl e
            | Inr ss \<Rightarrow> Inr (Filter_end_suite f (set_suites (set_tests s []) ss)))"
    by (subst visit.simps) (simp add: start end_suite_def split: sum.splits)
qed

lemma narrow_tree_derived: "narrow_tree (derived f) s = narrow_tree f s"
  by (induction s) (simp add: derived_facts(3) cong: map_cong)

lemma visit_derived:
  "visit mk (FilterV (derived f)) s =
     Inr (if test_level f then narrow_tree f s else Filter_end_suite f s)"
proof (cases "test_level f")
  case True
  then show ?thesis
    using visit_narrowing_Filter [of "derived f" mk s] derived_facts [of f]
    by (simp add: narrow_tree_derived)
next
  case False
  then show ?thesis
    using visit_empty_Filter [of "derived f" mk s] derived_facts [of f]
    by (simp add: Filter_end_suite_def)
qed

lemma visit_selecting_Filter:
  assumes "NameFilter_nonzero (include_suites f)"
  shows "visit mk (FilterV f) s = Inr (select_tree f s)"
proof (induction s)
  case (Suite n l ss ts)
  let ?s = "Suite n l ss ts"
  from SuiteNameFilter_match_total [OF assms, of ?s]
  obtain b where b: "SuiteNameFilter_match (include_suites f) ?s = Inr b" by blast
  show ?case
  proof (cases b)
    case True
    with b show ?thesis
      by (simp add: visit_matched(2) [OF assms] visit_derived)
  next
    case False
    have "visit_suites mk (FilterV f) ss = Inr (map (select_tree f) ss)"
      using Suite.IH by (rule visit_suites_map)
    with False b show ?thesis
      by (simp add: visit_unmatched(2) [OF assms] set_suites_def set_tests_def)
  qed
qed

subsection \<open>Name filters built from one bare string\<close>

text \<open>
  Claim C10. A name filter constructed from one bare pattern string is the filter
  constructed from the one-element list of that string: it holds the same patterns, so as
  a suite name filter and as a test name filter it matches exactly the same suites and
  tests, and a bare name is matched against the one pattern. A name filter constructed
  from the empty pattern list is falsy.
\<close>

theorem name_filter_of_bare_string:
  "NameFilter_init (PStr p) = NameFilter_init (PList [p]) \<and>
   NameFilter_match (NameFilter_init (PStr p)) n = Inr (matches n p ''_'') \<and>
   NameFilter_match (NameFilter_init (PList [p])) n = Inr (matches n p ''_'') \<and>
   SuiteNameFilter_match (NameFilter_init (PStr p)) s =
     SuiteNameFilter_match (NameFilter_init (PList [p])) s \<and>
   TestNameFilter_match (NameFilter_init (PStr p)) t =
     TestNameFilter_match (NameFilter_init (PList [p])) t \<and>
   \<not> NameFilter_nonzero (NameFilter_init (PList []))"
  by (simp add: NameFilter_init_def NameFilter_match_def NameFilter_nonzero_def)

subsection \<open>Suite names are matched at segment boundaries\<close>

lemma split_at_first_dot:
  assumes "CHR ''.'' \<in> set n"
  shows "n = takeWhile (\<lambda>c. c \<noteq> CHR ''.'') n @ CHR ''.'' # split_dot_1 n"
proof -
  let ?d = "dropWhile (\<lambda>c. c \<noteq> CHR ''.'') n"
  from assms have ne: "?d \<noteq> []" by auto
  then have "hd ?d = CHR ''.''"
    using hd_dropWhile [of "\<lambda>c. c \<noteq> CHR ''.''" n] by simp
  with ne have "?d = CHR ''.'' # split_dot_1 n"
    by (cases ?d) (simp_all add: split_dot_1_def)
  then show ?thesis
    using takeWhile_dropWhile_id [of "\<lambda>c. c \<noteq> CHR ''.''" n] by simp
qed

lemma match_longname_end_ends:
  "match_longname_end (NameFilter (Some ps)) n =
     Inr (list_ex (\<lambda>e. matches_any e ps ''_'') (longname_ends n))"
proof (induction n rule: longname_ends.induct)
  case (1 n)
  show ?case
  proof (cases "CHR ''.'' \<in> set n")
    case dot: True
    show ?thesis
    proof (cases "matches_any n ps ''_''")
      case True
      with dot show ?thesis
        by (subst match_longname_end.simps, subst longname_ends.simps)
           (simp add: NameFilter_match_def)
    next
      case False
      with dot 1 show ?thesis
        by (subst match_longname_end.simps, subst longname_ends.simps)
           (simp add: NameFilter_match_def)
    qed
  next
    case False
    then show ?thesis
      by (subst match_longname_end.simps, subst longname_ends.simps) simp
  qed
qed

lemma set_longname_ends:
  "set (longname_ends n) = {e. CHR ''.'' \<in> set e \<and> segment_end e n}"
proof (induction n rule: longname_ends.induct)
  case (1 n)
  show ?case
  proof (cases "CHR ''.'' \<in> set n")
    case False
    then have "longname_ends n = []"
      by (subst longname_ends.simps) simp
    moreover have "\<not> (CHR ''.'' \<in> set e \<and> segment_end e n)" for e
      using False by (auto simp: segment_end_def)
    ultimately show ?thesis by simp
  next
    case dot: True
    let ?a = "takeWhile (\<lambda>c. c \<noteq> CHR ''.'') n"
    let ?r = "split_dot_1 n"
    have n: "n = ?a @ CHR ''.'' # ?r"
      using dot by (rule split_at_first_dot)
    have a: "CHR ''.'' \<notin> set ?a"
      by (auto dest: set_takeWhileD)
    have ends: "longname_ends n = n # longname_ends ?r"
      using dot by (subst longname_ends.simps) simp
    have ih: "set (longname_ends ?r) = {e. CHR ''.'' \<in> set e \<and> segment_end e ?r}"
      using dot by (rule 1)
    have step: "segment_end e n \<longleftrightarrow> e = n \<or> segment_end e ?r" for e
    proof
      assume "segment_end e n"
      then consider "e = n" | pre where "n = pre @ CHR ''.'' # e"
        by (auto simp: segment_end_def)
      then show "e = n \<or> segment_end e ?r"
      proof cases
        case 1
        then show ?thesis by simp
      next
        case 2
        with n have "?a @ CHR ''.'' # ?r = pre @ CHR ''.'' # e" by simp
        then obtain us where
          "(?a = pre @ us \<and> us @ CHR ''.'' # ?r = CHR ''.'' # e) \<or>
           (?a @ us = pre \<and> CHR ''.'' # ?r = us @ CHR ''.'' # e)"
          by (auto simp: append_eq_append_conv2)
        then show ?thesis
        proof
          assume h: "?a = pre @ us \<and> us @ CHR ''.'' # ?r = CHR ''.'' # e"
          show ?thesis
          proof (cases us)
            case Nil
            with h show ?thesis by (simp add: segment_end_def)
          next
            case (Cons u us')
            with h have "u = CHR ''.''" by simp
            with Cons h a show ?thesis
              by (metis in_set_conv_decomp)
          qed
        next
          assume h: "?a @ us = pre \<and> CHR ''.'' # ?r = us @ CHR ''.'' # e"
          show ?thesis
          proof (cases us)
            case Nil
            with h show ?thesis by (simp add: segment_end_def)
          next
            case (Cons u us')
            with h have "?r = us' @ CHR ''.'' # e" by simp
            then show ?thesis by (auto simp: segment_end_def)
          qed
        qed
      qed
    next
      assume "e = n \<or> segment_end e ?r"
      then show "segment_end e n"
      proof
        assume "e = n"
        then show ?thesis by (simp add: segment_end_def)
      next
        assume "segment_end e ?r"
        then consider "e = ?r" | pre where "?r = pre @ CHR ''.'' # e"
          by (auto simp: segment_end_def)
        then show ?thesis
        proof cases
          case 1
          with n show ?thesis
            unfolding segment_end_def by metis
        next
          case 2
          with n have "n = (?a @ CHR ''.'' # pre) @ CHR ''.'' # e" by simp
          then show ?thesis
            unfolding segment_end_def by blast
        qed
      qed
    qed
    show ?thesis
      using dot by (auto simp: ends ih step)
  qed
qed

lemma last_segment_unique:
  assumes "xs @ CHR ''.'' # e = ys @ CHR ''.'' # f"
    and "CHR ''.'' \<notin> set e" and "CHR ''.'' \<notin> set f"
  shows "e = f"
proof -
  have "takeWhile (\<lambda>c. c \<noteq> CHR ''.'') (rev (xs @ CHR ''.'' # e)) = rev e"
    using assms(2) by (simp add: takeWhile_append)
  moreover have "takeWhile (\<lambda>c. c \<noteq> CHR ''.'') (rev (ys @ CHR ''.'' # f)) = rev f"
    using assms(3) by (simp add: takeWhile_append)
  ultimately have "rev e = rev f"
    using assms(1) by simp
  then show ?thesis by simp
qed

lemma SuiteNameFilter_match_ends:
  "SuiteNameFilter_match (NameFilter (Some ps)) s =
     Inr (matches_any (name s) ps ''_'' \<or>
          (\<exists>e. CHR ''.'' \<in> set e \<and> segment_end e (longname s) \<and> matches_any e ps ''_''))"
proof -
  have "list_ex (\<lambda>e. matches_any e ps ''_'') (longname_ends (longname s)) \<longleftrightarrow>
          (\<exists>e. CHR ''.'' \<in> set e \<and> segment_end e (longname s) \<and> matches_any e ps ''_'')"
    by (auto simp: list_ex_iff set_longname_ends)
  then show ?thesis
    by (simp add: SuiteNameFilter_match_def NameFilter_match_def match_longname_end_ends)
qed

lemma SuiteNameFilter_match_all_ends:
  assumes nodot: "CHR ''.'' \<notin> set (name s)"
    and inv: "segment_end (name s) (longname s)"
  shows "SuiteNameFilter_match (NameFilter (Some ps)) s =
           Inr (\<exists>e. segment_end e (longname s) \<and> matches_any e ps ''_'')"
proof -
  have only: "e = name s" if e: "segment_end e (longname s)" "CHR ''.'' \<notin> set e" for e
  proof -
    from inv consider "longname s = name s" | p where "longname s = p @ CHR ''.'' # name s"
      by (auto simp: segment_end_def)
    then show ?thesis
    proof cases
      case 1
      with e nodot show ?thesis
        by (auto simp: segment_end_def)
    next
      case 2
      from e(1) consider "e = longname s" | pre where "longname s = pre @ CHR ''.'' # e"
        by (auto simp: segment_end_def)
      then show ?thesis
      proof cases
        case 1
        with 2 e(2) show ?thesis by simp
      next
        case b: 2
        with 2 have "pre @ CHR ''.'' # e = p @ CHR ''.'' # name s" by simp
        then show ?thesis
          using e(2) nodot by (rule last_segment_unique)
      qed
    qed
  qed
  have "(matches_any (name s) ps ''_'' \<or>
          (\<exists>e. CHR ''.'' \<in> set e \<and> segment_end e (longname s) \<and> matches_any e ps ''_''))
        \<longleftrightarrow> (\<exists>e. segment_end e (longname s) \<and> matches_any e ps ''_'')"
    using inv only by blast
  then show ?thesis
    by (simp add: SuiteNameFilter_match_ends)
qed

text \<open>
  Claim C3. Suite-name matching is segment-suffix-exact. A suite matches a pattern list
  iff its bare name matches some pattern, or some end of its longname that starts at a
  segment boundary (the longname itself, or what follows one of its dots) and still holds
  a dot matches some pattern: these are the strings the loop tests, which stops as soon
  as no dot remains. Where the longname ends with the bare name as its last segment (the
  invariant of the data model) and the name holds no dot, the dot-free last end is the
  bare name, so the suite matches iff any end of its longname at a segment boundary
  matches. Pattern \<open>Top.Smoke\<close> matches a suite with longname \<open>Top.Smoke\<close>; pattern
  \<open>Smoke\<close> does not match a suite with longname \<open>Top.Smoke.Sub\<close> and name \<open>Sub\<close>.
\<close>

theorem suite_name_match_is_segment_suffix_exact:
  "SuiteNameFilter_match (NameFilter (Some ps)) s =
     Inr (matches_any (name s) ps ''_'' \<or>
          (\<exists>e. CHR ''.'' \<in> set e \<and> segment_end e (longname s) \<and> matches_any e ps ''_'')) \<and>
   (CHR ''.'' \<notin> set (name s) \<and> segment_end (name s) (longname s) \<longrightarrow>
      SuiteNameFilter_match (NameFilter (Some ps)) s =
        Inr (\<exists>e. segment_end e (longname s) \<and> matches_any e ps ''_'')) \<and>
   SuiteNameFilter_match (NameFilter_init (PList [''Top.Smoke'']))
     (Suite ''Smoke'' ''Top.Smoke'' ss ts) = Inr True \<and>
   SuiteNameFilter_match (NameFilter_init (PList [''Smoke'']))
     (Suite ''Sub'' ''Top.Smoke.Sub'' ss ts) = Inr False"
proof (intro conjI impI)
  show "SuiteNameFilter_match (NameFilter (Some ps)) s =
     Inr (matches_any (name s) ps ''_'' \<or>
          (\<exists>e. CHR ''.'' \<in> set e \<and> segment_end e (longname s) \<and> matches_any e ps ''_''))"
    by (rule SuiteNameFilter_match_ends)
next
  assume "CHR ''.'' \<notin> set (name s) \<and> segment_end (name s) (longname s)"
  then show "SuiteNameFilter_match (NameFilter (Some ps)) s =
        Inr (\<exists>e. segment_end e (longname s) \<and> matches_any e ps ''_'')"
    by (intro SuiteNameFilter_match_all_ends) simp_all
next
  show "SuiteNameFilter_match (NameFilter_init (PList [''Top.Smoke'']))
     (Suite ''Smoke'' ''Top.Smoke'' ss ts) = Inr True"
    by (simp add: SuiteNameFilter_match_def NameFilter_init_def NameFilter_match_def
          match_longname_end.simps matches_def normalize_def lower_def split_dot_1_def)
next
  show "SuiteNameFilter_match (NameFilter_init (PList [''Smoke'']))
     (Suite ''Sub'' ''Top.Smoke.Sub'' ss ts) = Inr False"
    by (simp add: SuiteNameFilter_match_def NameFilter_init_def NameFilter_match_def
          match_longname_end.simps matches_def normalize_def lower_def split_dot_1_def)
qed

theorem suite_name_match_is_segment_suffix_exact_witness:
  "CHR ''.'' \<notin> set ''Sub'' \<and> segment_end ''Sub'' ''Top.Smoke.Sub'' \<and>
   SuiteNameFilter_match (NameFilter (Some [''Smoke''])) (Suite ''Sub'' ''Top.Smoke.Sub'' [] []) =
     Inr (\<exists>e. segment_end e ''Top.Smoke.Sub'' \<and> matches_any e [''Smoke''] ''_'') \<and>
   SuiteNameFilter_match (NameFilter (Some [''Smoke''])) (Suite ''Sub'' ''Top.Smoke.Sub'' [] []) =
     Inr False"
proof -
  have seg: "segment_end ''Sub'' ''Top.Smoke.Sub''"
    unfolding segment_end_def by (intro disjI2 exI [of _ "''Top.Smoke''"]) simp
  have nodot: "CHR ''.'' \<notin> set ''Sub''"
    by simp
  have ev: "SuiteNameFilter_match (NameFilter (Some [''Smoke'']))
              (Suite ''Sub'' ''Top.Smoke.Sub'' [] []) = Inr False"
    by (simp add: SuiteNameFilter_match_def NameFilter_match_def
          match_longname_end.simps matches_def normalize_def lower_def split_dot_1_def)
  show ?thesis
    using suite_name_match_is_segment_suffix_exact
            [of "[''Smoke'']" "Suite ''Sub'' ''Top.Smoke.Sub'' [] []"] seg nodot ev
    by simp
qed

subsection \<open>Normalization of the filter's configuration\<close>

text \<open>
  Claim C8. Normalization of the Filter configuration is idempotent. Each of the four
  setters converts a raw value into a matcher (a name filter, or what the constructor
  \<open>mk\<close> of tag patterns builds), and returns a value that is already a matcher of its
  class unchanged; so a setter applied to its own result returns that result, and a
  Filter constructed from the four matchers of a Filter is that Filter. (Equality of
  values; the identity of objects is not part of the model.)
\<close>

theorem setters_reuse_matchers:
  "include_suites_setter (Built m) = m \<and>
   include_tests_setter (Built m) = m \<and>
   include_tags_setter mk (Built tp) = tp \<and>
   exclude_tags_setter mk (Built tp) = tp \<and>
   include_suites_setter (Raw p) = NameFilter_init p \<and>
   include_tests_setter (Raw p) = NameFilter_init p \<and>
   include_tags_setter mk (Raw p) = mk p \<and>
   exclude_tags_setter mk (Raw p) = mk p \<and>
   include_suites_setter (Built (include_suites_setter v)) = include_suites_setter v \<and>
   include_tests_setter (Built (include_tests_setter v)) = include_tests_setter v \<and>
   include_tags_setter mk (Built (include_tags_setter mk w)) = include_tags_setter mk w \<and>
   exclude_tags_setter mk (Built (exclude_tags_setter mk w)) = exclude_tags_setter mk w \<and>
   Filter_init mk (Built (include_suites f)) (Built (include_tests f))
     (Built (include_tags f)) (Built (exclude_tags f)) = f"
  by (simp add: include_suites_setter_def include_tests_setter_def include_tags_setter_def
        exclude_tags_setter_def Filter_init_def)

subsection \<open>The tag setter\<close>

lemma set_Tags_add: "set (Tags_add xs as) = set xs \<union> set as"
  by (induction as arbitrary: xs) auto

lemma distinct_Tags_add: "distinct xs \<Longrightarrow> distinct (Tags_add xs as)"
  by (induction as arbitrary: xs) auto

lemma Tags_add_prefix: "take (length xs) (Tags_add xs as) = xs"
proof (induction as arbitrary: xs)
  case Nil
  show ?case by simp
next
  case (Cons a as)
  show ?case
  proof (cases "a \<in> set xs")
    case True
    with Cons show ?thesis by simp
  next
    case False
    have "take (length xs) (Tags_add (xs @ [a]) as)
            = take (length xs) (take (length (xs @ [a])) (Tags_add (xs @ [a]) as))"
      by (simp add: min_def)
    also have "\<dots> = take (length xs) (xs @ [a])"
      by (simp only: Cons.IH)
    finally show ?thesis
      using False by simp
  qed
qed

lemma Tags_add_kept:
  "(\<And>a. a \<in> set as \<Longrightarrow> \<not> m a \<Longrightarrow> a \<in> set xs) \<Longrightarrow>
   filter (\<lambda>t. \<not> m t) (Tags_add xs as) = filter (\<lambda>t. \<not> m t) xs"
proof (induction as arbitrary: xs)
  case Nil
  show ?case by simp
next
  case (Cons a as)
  show ?case
  proof (cases "a \<in> set xs")
    case True
    with Cons.prems show ?thesis
      by (simp add: Cons.IH)
  next
    case False
    with Cons.prems [of a] have ma: "m a" by auto
    have "filter (\<lambda>t. \<not> m t) (Tags_add (xs @ [a]) as) = filter (\<lambda>t. \<not> m t) (xs @ [a])"
      using Cons.prems by (intro Cons.IH) auto
    with False ma show ?thesis by simp
  qed
qed

lemma add_remove_idempotent:
  "Tags_remove (Tags_add (Tags_remove (Tags_add xs as) ps) as) ps =
     Tags_remove (Tags_add xs as) ps"
proof -
  let ?m = "\<lambda>t. matches_any t ps ''_''"
  let ?ys = "filter (\<lambda>t. \<not> ?m t) (Tags_add xs as)"
  have "filter (\<lambda>t. \<not> ?m t) (Tags_add ?ys as) = filter (\<lambda>t. \<not> ?m t) ?ys"
    by (rule Tags_add_kept) (simp add: set_Tags_add)
  then show ?thesis
    by (simp add: Tags_remove_def)
qed

text \<open>
  Claim C6. \<open>TagSetter.start_test\<close> applies \<open>add\<close> and then \<open>remove\<close> to the tags of the
  test and is idempotent. With \<open>add = ["smoke"]\<close> and \<open>remove\<close> empty, a test with no tags
  gets exactly the tag \<open>smoke\<close>; for every tag setter and test, a second application
  leaves the test as the first one made it; the return value is always \<open>False\<close>. Adding
  keeps the tags that were there in their order in front, appends a tag only if it is
  absent, and so keeps a duplicate-free tag list duplicate-free.
\<close>

theorem TagSetter_start_test_idempotent:
  "fst (TagSetter_start_test \<lparr>add = [''smoke''], remove = []\<rparr> (Test n l [])) =
     Test n l [''smoke''] \<and>
   fst (TagSetter_start_test ts (fst (TagSetter_start_test ts t))) =
     fst (TagSetter_start_test ts t) \<and>
   snd (TagSetter_start_test ts t) = False \<and>
   fst (TagSetter_start_test ts t) =
     Test (test_name t) (test_longname t) (Tags_remove (Tags_add (tags t) (add ts)) (remove ts)) \<and>
   (distinct (tags t) \<longrightarrow> distinct (tags (fst (TagSetter_start_test ts t)))) \<and>
   take (length xs) (Tags_add xs as) = xs \<and>
   Tags_add xs [a] = (if a \<in> set xs then xs else xs @ [a])"
  by (simp add: TagSetter_start_test_def Tags_remove_def add_remove_idempotent [unfolded Tags_remove_def]
        distinct_Tags_add Tags_add_prefix)

theorem TagSetter_start_test_idempotent_witness:
  "distinct (tags (Test ''T'' ''S.T'' [])) \<and>
   fst (TagSetter_start_test \<lparr>add = [''smoke''], remove = []\<rparr>
     (fst (TagSetter_start_test \<lparr>add = [''smoke''], remove = []\<rparr> (Test ''T'' ''S.T'' [])))) =
     Test ''T'' ''S.T'' [''smoke''] \<and>
   distinct (tags (fst (TagSetter_start_test \<lparr>add = [''smoke''], remove = []\<rparr>
     (Test ''T'' ''S.T'' []))))"
proof -
  let ?ts = "\<lparr>add = [''smoke''], remove = []\<rparr>"
  let ?t = "Test ''T'' ''S.T'' []"
  note th = TagSetter_start_test_idempotent
              [where n = "''T''" and l = "''S.T''" and ts = ?ts and t = ?t
                 and xs = "[]" and as = "[]" and a = "''smoke''"]
  have once: "fst (TagSetter_start_test ?ts ?t) = Test ''T'' ''S.T'' [''smoke'']"
    using th by blast
  have twice: "fst (TagSetter_start_test ?ts (fst (TagSetter_start_test ?ts ?t))) =
                 fst (TagSetter_start_test ?ts ?t)"
    using th by blast
  have "distinct (tags ?t)"
    by simp
  moreover have "distinct (tags ?t) \<longrightarrow> distinct (tags (fst (TagSetter_start_test ?ts ?t)))"
    using th by blast
  ultimately show ?thesis
    using once twice by metis
qed

subsection \<open>The empty filter\<close>

lemma NameFilter_nonzero_init:
  "NameFilter_nonzero (NameFilter_init p) \<longleftrightarrow> p \<noteq> PNone \<and> p \<noteq> PList []"
  by (cases p) (simp_all add: NameFilter_nonzero_def NameFilter_init_def)

text \<open>
  Claim C7 says that an unconfigured Filter never walks or changes the tree. It does not
  walk it, but the driver calls \<open>end_suite\<close> after every \<open>start_suite\<close>, and
  \<open>Filter.end_suite\<close> has no test of the filter's truth value: a visit with the empty
  Filter removes the child suite \<open>A\<close>, which has no tests, from the root.
\<close>

theorem empty_Filter_visit_prunes_root_counterexample:
  "\<not> Filter_nonzero
       (Filter_init plain_TagPatterns (Raw PNone) (Raw PNone) (Raw PNone) (Raw PNone)) \<and>
   visit plain_TagPatterns
     (FilterV (Filter_init plain_TagPatterns (Raw PNone) (Raw PNone) (Raw PNone) (Raw PNone)))
     (Suite ''Root'' ''Root'' [Suite ''A'' ''Root.A'' [] []] [Test ''T'' ''Root.T'' []]) =
     Inr (Suite ''Root'' ''Root'' [] [Test ''T'' ''Root.T'' []]) \<and>
   visit plain_TagPatterns
     (FilterV (Filter_init plain_TagPatterns (Raw PNone) (Raw PNone) (Raw PNone) (Raw PNone)))
     (Suite ''Root'' ''Root'' [Suite ''A'' ''Root.A'' [] []] [Test ''T'' ''Root.T'' []]) \<noteq>
     Inr (Suite ''Root'' ''Root'' [Suite ''A'' ''Root.A'' [] []] [Test ''T'' ''Root.T'' []])"
  by (simp add: visit.simps start_suite.simps Filter_start_suite.simps end_suite_def
        Filter_end_suite_def set_suites_def Filter_nonzero_def Filter_init_def
        include_suites_setter_def include_tests_setter_def include_tags_setter_def
        exclude_tags_setter_def NameFilter_init_def NameFilter_nonzero_def plain_TagPatterns_def)

text \<open>
  Claim C7, amended. A Filter is empty iff all four criteria are falsy (a name filter is
  falsy iff it was built from \<open>None\<close> or the empty list), and for every suite
  \<open>start_suite\<close> on an empty Filter returns \<open>False\<close> at once and leaves the suite, its
  test list and its child-suite list as they are, so the driver does not descend. The
  visit then ends with \<open>end_suite\<close> on the visited suite, whose only effect is to remove
  the direct child suites with no tests.
\<close>

theorem empty_Filter_stops_at_start_suite:
  "(\<not> Filter_nonzero f \<longleftrightarrow>
      \<not> NameFilter_nonzero (include_suites f) \<and> \<not> NameFilter_nonzero (include_tests f) \<and>
      \<not> tp_nonzero (include_tags f) \<and> \<not> tp_nonzero (exclude_tags f)) \<and>
   (NameFilter_nonzero (NameFilter_init p) \<longleftrightarrow> p \<noteq> PNone \<and> p \<noteq> PList []) \<and>
   (\<not> Filter_nonzero f \<longrightarrow>
      start_suite mk (FilterV f) s = Inr (s, False) \<and>
      visit mk (FilterV f) s =
        Inr (set_suites s (filter (\<lambda>c. test_count c \<noteq> 0) (suites s))))"
  by (auto simp: Filter_nonzero_def NameFilter_nonzero_init start_suite.simps
        Filter_start_suite.simps visit.simps end_suite_def Filter_end_suite_def)

theorem empty_Filter_stops_at_start_suite_witness:
  "\<not> Filter_nonzero
       (Filter_init plain_TagPatterns (Raw PNone) (Raw PNone) (Raw PNone) (Raw PNone)) \<and>
   start_suite plain_TagPatterns
     (FilterV (Filter_init plain_TagPatterns (Raw PNone) (Raw PNone) (Raw PNone) (Raw PNone)))
     (Suite ''Root'' ''Root'' [Suite ''A'' ''Root.A'' [] [Test ''T'' ''Root.A.T'' []]] []) =
     Inr (Suite ''Root'' ''Root'' [Suite ''A'' ''Root.A'' [] [Test ''T'' ''Root.A.T'' []]] [],
          False) \<and>
   visit plain_TagPatterns
     (FilterV (Filter_init plain_TagPatterns (Raw PNone) (Raw PNone) (Raw PNone) (Raw PNone)))
     (Suite ''Root'' ''Root'' [Suite ''A'' ''Root.A'' [] [Test ''T'' ''Root.A.T'' []]] []) =
     Inr (Suite ''Root'' ''Root'' [Suite ''A'' ''Root.A'' [] [Test ''T'' ''Root.A.T'' []]] [])"
proof -
  let ?f = "Filter_init plain_TagPatterns (Raw PNone) (Raw PNone) (Raw PNone) (Raw PNone)"
  let ?s = "Suite ''Root'' ''Root'' [Suite ''A'' ''Root.A'' [] [Test ''T'' ''Root.A.T'' []]] []"
  have empty: "\<not> Filter_nonzero ?f"
    by (simp add: Filter_nonzero_def Filter_init_def include_suites_setter_def
          include_tests_setter_def include_tags_setter_def exclude_tags_setter_def
          NameFilter_init_def NameFilter_nonzero_def plain_TagPatterns_def)
  from empty empty_Filter_stops_at_start_suite [of ?f PNone plain_TagPatterns ?s]
  have "start_suite plain_TagPatterns (FilterV ?f) ?s = Inr (?s, False)"
    and "visit plain_TagPatterns (FilterV ?f) ?s =
           Inr (set_suites ?s (filter (\<lambda>c. test_count c \<noteq> 0) (suites ?s)))"
    by blast+
  with empty show ?thesis
    by (simp add: set_suites_def)
qed

subsection \<open>Narrowing the tests of a suite\<close>

lemma test_ok_passes:
  "filter (test_ok f) ts =
     filter (\<lambda>t. tp_nonzero (exclude_tags f) \<longrightarrow> \<not> tp_match (exclude_tags f) (tags t))
       (filter (\<lambda>t. tp_nonzero (include_tags f) \<longrightarrow> tp_match (include_tags f) (tags t))
          (filter (\<lambda>t. NameFilter_nonzero (include_tests f) \<longrightarrow>
                        TestNameFilter_match (include_tests f) t = Inr True) ts))"
  by (auto simp: test_ok_def included_by_test_name_def included_by_tags_def
        not_excluded_by_tags_def intro: filter_cong)

text \<open>
  Claim C2. For every suite on which a configured Filter with \<open>include_suites\<close> unset runs
  \<open>start_suite\<close>, the resulting test list is the original one narrowed by test-name
  inclusion, then by tag inclusion, then by tag exclusion (keeping the tests the excluding
  patterns do not match), each pass on the output of the one before; a pass whose
  criterion is not configured is skipped. The tests that survive are exactly the original
  tests that satisfy all configured predicates, in their original order; the suite is
  otherwise unchanged, and the return value says whether it has child suites.
\<close>

theorem start_suite_narrows_tests_in_order:
  "narrow False s p = Inr s \<and>
   (Filter_nonzero f \<and> \<not> NameFilter_nonzero (include_suites f) \<longrightarrow>
      start_suite mk (FilterV f) s =
        Inr (set_tests s (filter (test_ok f) (tests s)), suites s \<noteq> []) \<and>
      filter (test_ok f) (tests s) =
        filter (\<lambda>t. tp_nonzero (exclude_tags f) \<longrightarrow> \<not> tp_match (exclude_tags f) (tags t))
          (filter (\<lambda>t. tp_nonzero (include_tags f) \<longrightarrow> tp_match (include_tags f) (tags t))
             (filter (\<lambda>t. NameFilter_nonzero (include_tests f) \<longrightarrow>
                           TestNameFilter_match (include_tests f) t = Inr True) (tests s))))"
  by (simp add: narrow_def start_suite.simps Filter_start_suite_narrows test_ok_passes)

theorem start_suite_narrows_tests_in_order_witness:
  "Filter_nonzero (Filter_init plain_TagPatterns (Raw PNone) (Raw (PList [''Login*'']))
                     (Raw PNone) (Raw PNone)) \<and>
   \<not> NameFilter_nonzero
       (include_suites (Filter_init plain_TagPatterns (Raw PNone) (Raw (PList [''Login*'']))
                          (Raw PNone) (Raw PNone))) \<and>
   start_suite plain_TagPatterns
     (FilterV (Filter_init plain_TagPatterns (Raw PNone) (Raw (PList [''Login*'']))
                 (Raw PNone) (Raw PNone)))
     (Suite ''S'' ''S'' []
        [Test ''Login Valid'' ''S.Login Valid'' [], Test ''Login Invalid'' ''S.Login Invalid'' [],
         Test ''Logout'' ''S.Logout'' []]) =
     Inr (Suite ''S'' ''S'' []
            [Test ''Login Valid'' ''S.Login Valid'' [],
             Test ''Login Invalid'' ''S.Login Invalid'' []], False)"
proof -
  let ?f = "Filter_init plain_TagPatterns (Raw PNone) (Raw (PList [''Login*'']))
              (Raw PNone) (Raw PNone)"
  let ?ts = "[Test ''Login Valid'' ''S.Login Valid'' [],
              Test ''Login Invalid'' ''S.Login Invalid'' [], Test ''Logout'' ''S.Logout'' []]"
  let ?s = "Suite ''S'' ''S'' [] ?ts"
  have conf: "Filter_nonzero ?f" "\<not> NameFilter_nonzero (include_suites ?f)"
    by (simp_all add: Filter_nonzero_def Filter_init_def include_suites_setter_def
          include_tests_setter_def include_tags_setter_def exclude_tags_setter_def
          NameFilter_init_def NameFilter_nonzero_def plain_TagPatterns_def)
  have kept: "filter (test_ok ?f) ?ts =
                [Test ''Login Valid'' ''S.Login Valid'' [],
                 Test ''Login Invalid'' ''S.Login Invalid'' []]"
    by (simp add: test_ok_def included_by_test_name_def included_by_tags_def
          not_excluded_by_tags_def Filter_init_def include_suites_setter_def
          include_tests_setter_def include_tags_setter_def exclude_tags_setter_def
          NameFilter_init_def NameFilter_nonzero_def plain_TagPatterns_def
          TestNameFilter_match_def NameFilter_match_def matches_def normalize_def lower_def)
  from conf start_suite_narrows_tests_in_order [of ?s _ ?f plain_TagPatterns]
  have "start_suite plain_TagPatterns (FilterV ?f) ?s =
          Inr (set_tests ?s (filter (test_ok ?f) (tests ?s)), suites ?s \<noteq> [])"
    by blast
  with conf kept show ?thesis
    by (simp add: set_tests_def)
qed

text \<open>
  Claim C9. When \<open>include_suites\<close> is not configured, \<open>Filter.start_suite\<close> modifies only
  the suite's own test list: the name, the longname and the list of child suites (with
  the child suites in it) are those of the suite before the call, and the new test list
  is a selection of the old one, so every surviving test is one of the original tests;
  this holds for the empty Filter too, which keeps every test. Child suites are removed
  by \<open>end_suite\<close>, which leaves the tests alone.
\<close>

theorem start_suite_changes_tests_only:
  "(\<not> NameFilter_nonzero (include_suites f) \<longrightarrow>
      start_suite mk (FilterV f) s =
        Inr (Suite (name s) (longname s) (suites s) (filter (test_ok f) (tests s)),
             Filter_nonzero f \<and> suites s \<noteq> [])) \<and>
   set (filter (test_ok f) (tests s)) \<subseteq> set (tests s) \<and>
   end_suite (FilterV f) s =
     Suite (name s) (longname s) (filter (\<lambda>c. test_count c \<noteq> 0) (suites s)) (tests s)"
proof (intro conjI impI)
  assume no: "\<not> NameFilter_nonzero (include_suites f)"
  show "start_suite mk (FilterV f) s =
        Inr (Suite (name s) (longname s) (suites s) (filter (test_ok f) (tests s)),
             Filter_nonzero f \<and> suites s \<noteq> [])"
  proof (cases "Filter_nonzero f")
    case True
    with no show ?thesis
      by (simp add: start_suite.simps Filter_start_suite_narrows set_tests_def)
  next
    case False
    then have "test_ok f t" for t
      by (simp add: test_ok_def Filter_nonzero_def)
    then have "filter (test_ok f) (tests s) = tests s"
      by simp
    with False show ?thesis
      by (simp add: start_suite.simps Filter_start_suite.simps)
  qed
next
  show "set (filter (test_ok f) (tests s)) \<subseteq> set (tests s)"
    by auto
next
  show "end_suite (FilterV f) s =
     Suite (name s) (longname s) (filter (\<lambda>c. test_count c \<noteq> 0) (suites s)) (tests s)"
    by (simp add: end_suite_def Filter_end_suite_def set_suites_def)
qed

theorem start_suite_changes_tests_only_witness:
  "\<not> NameFilter_nonzero
       (include_suites (Filter_init plain_TagPatterns (Raw PNone) (Raw PNone)
                          (Raw (PStr ''critical'')) (Raw PNone))) \<and>
   start_suite plain_TagPatterns
     (FilterV (Filter_init plain_TagPatterns (Raw PNone) (Raw PNone)
                 (Raw (PStr ''critical'')) (Raw PNone)))
     (Suite ''Root'' ''Root'' [Suite ''B'' ''Root.B'' [] []]
        [Test ''T1'' ''Root.T1'' [''critical''], Test ''T2'' ''Root.T2'' [],
         Test ''T3'' ''Root.T3'' [''slow'', ''critical'']]) =
     Inr (Suite ''Root'' ''Root'' [Suite ''B'' ''Root.B'' [] []]
            [Test ''T1'' ''Root.T1'' [''critical''],
             Test ''T3'' ''Root.T3'' [''slow'', ''critical'']], True)"
proof -
  let ?f = "Filter_init plain_TagPatterns (Raw PNone) (Raw PNone)
              (Raw (PStr ''critical'')) (Raw PNone)"
  let ?ts = "[Test ''T1'' ''Root.T1'' [''critical''], Test ''T2'' ''Root.T2'' [],
              Test ''T3'' ''Root.T3'' [''slow'', ''critical'']]"
  let ?s = "Suite ''Root'' ''Root'' [Suite ''B'' ''Root.B'' [] []] ?ts"
  have conf: "\<not> NameFilter_nonzero (include_suites ?f)" "Filter_nonzero ?f"
    by (simp_all add: Filter_nonzero_def Filter_init_def include_suites_setter_def
          include_tests_setter_def include_tags_setter_def exclude_tags_setter_def
          NameFilter_init_def NameFilter_nonzero_def plain_TagPatterns_def)
  have kept: "filter (test_ok ?f) ?ts =
                [Test ''T1'' ''Root.T1'' [''critical''],
                 Test ''T3'' ''Root.T3'' [''slow'', ''critical'']]"
    by (simp add: test_ok_def included_by_test_name_def included_by_tags_def
          not_excluded_by_tags_def Filter_init_def include_suites_setter_def
          include_tests_setter_def include_tags_setter_def exclude_tags_setter_def
          NameFilter_init_def NameFilter_nonzero_def plain_TagPatterns_def
          matches_def normalize_def lower_def)
  from conf start_suite_changes_tests_only [of ?f plain_TagPatterns ?s]
  have "start_suite plain_TagPatterns (FilterV ?f) ?s =
          Inr (Suite (name ?s) (longname ?s) (suites ?s) (filter (test_ok ?f) (tests ?s)),
               Filter_nonzero ?f \<and> suites ?s \<noteq> [])"
    by blast
  with conf kept show ?thesis
    by simp
qed

subsection \<open>Facts used to run the model on concrete trees\<close>

lemmas eval_Filter =
  Filter_nonzero_def Filter_init_def include_suites_setter_def include_tests_setter_def
  include_tags_setter_def exclude_tags_setter_def NameFilter_init_def NameFilter_nonzero_def
  plain_TagPatterns_def test_level_def

lemmas eval_match =
  SuiteNameFilter_match_def TestNameFilter_match_def NameFilter_match_def
  match_longname_end.simps matches_def normalize_def lower_def split_dot_1_def

lemmas eval_test_ok =
  test_ok_def included_by_test_name_def included_by_tags_def not_excluded_by_tags_def

subsection \<open>Suites without tests after a visit\<close>

lemma test_count_Suite_eq_0:
  "test_count (Suite n l ss ts) = 0 \<longleftrightarrow> ts = [] \<and> (\<forall>c \<in> set ss. test_count c = 0)"
  by (auto simp: sum_list_eq_0_iff)

lemma no_empty_below_iff:
  "no_empty_below s \<longleftrightarrow> (\<forall>c \<in> set (suites s). test_count c \<noteq> 0 \<and> no_empty_below c)"
  by (cases s) (simp add: list_all_iff)

lemma no_empty_below_end_suite:
  "(\<And>c. c \<in> set (suites s) \<Longrightarrow> no_empty_below c) \<Longrightarrow> no_empty_below (Filter_end_suite f s)"
  by (cases s) (simp add: Filter_end_suite_def set_suites_def list_all_iff)

lemma no_empty_below_narrow_tree: "no_empty_below (narrow_tree f s)"
  by (induction s) (auto simp: list_all_iff)

lemma Filter_end_suite_pruned:
  "no_empty_below s \<Longrightarrow> Filter_end_suite f s = s"
  by (cases s) (simp add: Filter_end_suite_def set_suites_def list_all_iff filter_id_conv)

lemma no_empty_below_select_tree:
  "test_level f \<or> no_empty_below s \<Longrightarrow> no_empty_below (select_tree f s)"
proof (induction s)
  case (Suite n l ss ts)
  show ?case
  proof (cases "SuiteNameFilter_match (include_suites f) (Suite n l ss ts) = Inr True")
    case True
    show ?thesis
    proof (cases "test_level f")
      case tl: True
      have "no_empty_below (narrow_tree f (Suite n l ss ts))"
        by (rule no_empty_below_narrow_tree)
      then have "Filter_end_suite f (narrow_tree f (Suite n l ss ts)) = narrow_tree f (Suite n l ss ts)"
        by (rule Filter_end_suite_pruned)
      with True tl show ?thesis
        using no_empty_below_narrow_tree [of f "Suite n l ss ts"] by simp
    next
      case False
      with Suite.prems have "no_empty_below (Suite n l ss ts)" by simp
      then have "Filter_end_suite f (Suite n l ss ts) = Suite n l ss ts"
        by (rule Filter_end_suite_pruned)
      with True False \<open>no_empty_below (Suite n l ss ts)\<close> show ?thesis
        by simp
    qed
  next
    case False
    have "no_empty_below c'" if "c' \<in> set (map (select_tree f) ss)" for c'
    proof -
      from that obtain c where c: "c \<in> set ss" "c' = select_tree f c" by auto
      from Suite.prems c(1) have "test_level f \<or> no_empty_below c"
        by (auto simp: list_all_iff)
      with c show ?thesis
        using Suite.IH by simp
    qed
    then have "no_empty_below (Filter_end_suite f (Suite n l (map (select_tree f) ss) []))"
      by (intro no_empty_below_end_suite) simp
    with False show ?thesis by simp
  qed
qed

lemma name_narrow_tree [simp]:
  "name (narrow_tree f s) = name s" "longname (narrow_tree f s) = longname s"
  by (cases s; simp)+

lemma name_Filter_end_suite [simp]:
  "name (Filter_end_suite f s) = name s" "longname (Filter_end_suite f s) = longname s"
  "tests (Filter_end_suite f s) = tests s"
  "suites (Filter_end_suite f s) = filter (\<lambda>c. test_count c \<noteq> 0) (suites s)"
  by (simp_all add: Filter_end_suite_def set_suites_def)

lemma name_select_tree [simp]:
  "name (select_tree f s) = name s" "longname (select_tree f s) = longname s"
  by (cases s; simp)+

lemma visit_Filter_closed_form:
  "visit mk (FilterV f) s =
     Inr (if \<not> Filter_nonzero f then Filter_end_suite f s
          else if NameFilter_nonzero (include_suites f) then select_tree f s
          else narrow_tree f s)"
  by (simp add: visit_empty_Filter visit_selecting_Filter visit_narrowing_Filter)

text \<open>
  Claim C1 says that after a complete visit with any configured Filter no suite below the
  root has \<open>test_count\<close> zero. A Filter with \<open>include_suites\<close> alone is configured, but the
  Filter it derives for a matched suite is empty, and the empty Filter stops at
  \<open>start_suite\<close>: only the direct children of the matched suite are looked at. The root
  matches \<open>Root\<close>; its grandchild \<open>B\<close> has no tests and is still there after the visit.
\<close>

theorem matched_suite_keeps_empty_descendant_counterexample:
  "Filter_nonzero
     (Filter_init plain_TagPatterns (Raw (PList [''Root''])) (Raw PNone) (Raw PNone)
        (Raw PNone)) \<and>
   visit plain_TagPatterns
     (FilterV (Filter_init plain_TagPatterns (Raw (PList [''Root''])) (Raw PNone) (Raw PNone)
                 (Raw PNone)))
     (Suite ''Root'' ''Root''
        [Suite ''A'' ''Root.A''
           [Suite ''B'' ''Root.A.B'' [] [],
            Suite ''C'' ''Root.A.C'' [] [Test ''T'' ''Root.A.C.T'' []]] []] []) =
     Inr (Suite ''Root'' ''Root''
            [Suite ''A'' ''Root.A''
               [Suite ''B'' ''Root.A.B'' [] [],
                Suite ''C'' ''Root.A.C'' [] [Test ''T'' ''Root.A.C.T'' []]] []] []) \<and>
   test_count (Suite ''B'' ''Root.A.B'' [] []) = 0 \<and>
   \<not> no_empty_below
       (Suite ''Root'' ''Root''
          [Suite ''A'' ''Root.A''
             [Suite ''B'' ''Root.A.B'' [] [],
              Suite ''C'' ''Root.A.C'' [] [Test ''T'' ''Root.A.C.T'' []]] []] [])"
  by (simp add: visit_Filter_closed_form eval_Filter eval_match Filter_end_suite_def
        set_suites_def)

text \<open>
  Claim C1, amended. After a complete visit of a suite tree with a configured Filter that
  has at least one of \<open>include_tests\<close>, \<open>include_tags\<close>, \<open>exclude_tags\<close> configured, or
  with any configured Filter on a tree in which no suite below the root had
  \<open>test_count\<close> zero before the visit, the visit returns without an error and every
  suite of the resulting tree other than the root has \<open>test_count > 0\<close>.
  \<open>Filter.end_suite\<close> removes from the child-suite list exactly the children whose
  \<open>test_count\<close> is zero and changes nothing else, and the root is still the root (same
  name and longname) after the visit.
\<close>

theorem visit_leaves_no_empty_suite_below_root:
  "suites (Filter_end_suite f s) = filter (\<lambda>c. test_count c \<noteq> 0) (suites s) \<and>
   name (Filter_end_suite f s) = name s \<and> longname (Filter_end_suite f s) = longname s \<and>
   tests (Filter_end_suite f s) = tests s \<and>
   (Filter_nonzero f \<and> (test_level f \<or> no_empty_below s) \<longrightarrow>
      (\<exists>s'. visit mk (FilterV f) s = Inr s' \<and> no_empty_below s' \<and>
            name s' = name s \<and> longname s' = longname s))"
proof (intro conjI impI)
  assume a: "Filter_nonzero f \<and> (test_level f \<or> no_empty_below s)"
  show "\<exists>s'. visit mk (FilterV f) s = Inr s' \<and> no_empty_below s' \<and>
            name s' = name s \<and> longname s' = longname s"
  proof (cases "NameFilter_nonzero (include_suites f)")
    case True
    from a have "no_empty_below (select_tree f s)"
      by (intro no_empty_below_select_tree) simp
    with a True show ?thesis
      by (simp add: visit_Filter_closed_form)
  next
    case False
    with a show ?thesis
      by (simp add: visit_Filter_closed_form no_empty_below_narrow_tree)
  qed
qed simp_all

theorem visit_leaves_no_empty_suite_below_root_witness:
  "Filter_nonzero
     (Filter_init plain_TagPatterns (Raw PNone) (Raw PNone) (Raw (PStr ''critical''))
        (Raw PNone)) \<and>
   test_level
     (Filter_init plain_TagPatterns (Raw PNone) (Raw PNone) (Raw (PStr ''critical''))
        (Raw PNone)) \<and>
   visit plain_TagPatterns
     (FilterV (Filter_init plain_TagPatterns (Raw PNone) (Raw PNone) (Raw (PStr ''critical''))
                 (Raw PNone)))
     (Suite ''Root'' ''Root''
        [Suite ''A'' ''Root.A'' []
           [Test ''T1'' ''Root.A.T1'' [''critical''], Test ''T2'' ''Root.A.T2'' [],
            Test ''T3'' ''Root.A.T3'' [''critical'']],
         Suite ''B'' ''Root.B'' [] [Test ''T4'' ''Root.B.T4'' []]] []) =
     Inr (Suite ''Root'' ''Root''
            [Suite ''A'' ''Root.A'' []
               [Test ''T1'' ''Root.A.T1'' [''critical''],
                Test ''T3'' ''Root.A.T3'' [''critical'']]] []) \<and>
   no_empty_below
     (Suite ''Root'' ''Root''
        [Suite ''A'' ''Root.A'' []
           [Test ''T1'' ''Root.A.T1'' [''critical''],
            Test ''T3'' ''Root.A.T3'' [''critical'']]] []) \<and>
   test_count
     (Suite ''Root'' ''Root''
        [Suite ''A'' ''Root.A'' []
           [Test ''T1'' ''Root.A.T1'' [''critical''],
            Test ''T3'' ''Root.A.T3'' [''critical'']]] []) = 2"
proof -
  let ?f = "Filter_init plain_TagPatterns (Raw PNone) (Raw PNone) (Raw (PStr ''critical''))
              (Raw PNone)"
  let ?s = "Suite ''Root'' ''Root''
        [Suite ''A'' ''Root.A'' []
           [Test ''T1'' ''Root.A.T1'' [''critical''], Test ''T2'' ''Root.A.T2'' [],
            Test ''T3'' ''Root.A.T3'' [''critical'']],
         Suite ''B'' ''Root.B'' [] [Test ''T4'' ''Root.B.T4'' []]] []"
  let ?r = "Suite ''Root'' ''Root''
        [Suite ''A'' ''Root.A'' []
           [Test ''T1'' ''Root.A.T1'' [''critical''],
            Test ''T3'' ''Root.A.T3'' [''critical'']]] []"
  have conf: "Filter_nonzero ?f" "test_level ?f"
    by (simp_all add: eval_Filter)
  have ev: "visit plain_TagPatterns (FilterV ?f) ?s = Inr ?r"
    by (simp add: visit_Filter_closed_form eval_Filter eval_match eval_test_ok)
  from conf visit_leaves_no_empty_suite_below_root [of ?f ?s plain_TagPatterns]
  obtain s' where s': "visit plain_TagPatterns (FilterV ?f) ?s = Inr s'" "no_empty_below s'"
    by blast
  from s'(1) ev have "s' = ?r"
    by (simp only: sum.inject)
  with s'(2) have "no_empty_below ?r"
    by (simp only:)
  moreover have "test_count ?r = 2"
    by simp
  ultimately show ?thesis
    using conf ev by (simp only: simp_thms)
qed

subsection \<open>A suite that matches \<open>include_suites\<close>\<close>

lemma all_tests_narrow_tree: "t \<in> set (all_tests (narrow_tree f s)) \<Longrightarrow> test_ok f t"
  by (induction s) auto

lemma test_ok_unconfigured: "\<not> test_level f \<Longrightarrow> test_ok f t"
  by (simp add: test_level_def test_ok_def)

text \<open>
  Claim C4. For every suite that matches a configured \<open>include_suites\<close>,
  \<open>Filter.start_suite\<close> constructs the derived Filter, whose \<open>include_suites\<close> is the
  empty list (falsy) and whose other three criteria are those of the Filter, visits the
  suite with it, and returns \<open>False\<close> with the suite as that visit left it. That visit
  never fails and never looks at a suite name: when a test-level criterion is configured
  it keeps, in the suite and in every suite below it, exactly the tests that satisfy the
  configured test-level predicates and removes the child suites left without tests; when
  none is configured the derived Filter is empty and the visit is its \<open>end_suite\<close>. Every
  test left in the subtree satisfies the configured test-level predicates.
\<close>

theorem matched_suite_is_visited_by_derived_Filter:
  "NameFilter_nonzero (include_suites f) \<and>
   SuiteNameFilter_match (include_suites f) s = Inr True \<longrightarrow>
     Filter_init mk (Raw (PList [])) (Built (include_tests f)) (Built (include_tags f))
       (Built (exclude_tags f)) = derived f \<and>
     \<not> NameFilter_nonzero (include_suites (derived f)) \<and>
     include_tests (derived f) = include_tests f \<and>
     include_tags (derived f) = include_tags f \<and>
     exclude_tags (derived f) = exclude_tags f \<and>
     Filter_filter_by_suite_name mk f s =
       (case visit mk (FilterV (derived f)) s of
          Inl e \<Rightarrow> Inl e | Inr s' \<Rightarrow> Inr (s', False)) \<and>
     (\<exists>s'. visit mk (FilterV (derived f)) s = Inr s' \<and>
           start_suite mk (FilterV f) s = Inr (s', False) \<and>
           s' = (if test_level f then narrow_tree f s else Filter_end_suite f s) \<and>
           (\<forall>t \<in> set (all_tests s'). test_ok f t))"
proof (intro impI)
  assume a: "NameFilter_nonzero (include_suites f) \<and>
             SuiteNameFilter_match (include_suites f) s = Inr True"
  let ?s' = "if test_level f then narrow_tree f s else Filter_end_suite f s"
  have v: "visit mk (FilterV (derived f)) s = Inr ?s'"
    by (rule visit_derived)
  have st: "start_suite mk (FilterV f) s = Inr (?s', False)"
    using a by (simp add: visit_matched(1) v)
  have by_name: "Filter_filter_by_suite_name mk f s =
       (case visit mk (FilterV (derived f)) s of
          Inl e \<Rightarrow> Inl e | Inr s' \<Rightarrow> Inr (s', False))"
    using a by (simp add: Filter_filter_by_suite_name.simps derived_Filter_init)
  have ok: "\<forall>t \<in> set (all_tests ?s'). test_ok f t"
    by (auto simp: all_tests_narrow_tree test_ok_unconfigured)
  have d: "\<not> NameFilter_nonzero (include_suites (derived f))"
    "include_tests (derived f) = include_tests f"
    "include_tags (derived f) = include_tags f"
    "exclude_tags (derived f) = exclude_tags f"
    by (simp_all add: derived_def NameFilter_nonzero_def)
  show "Filter_init mk (Raw (PList [])) (Built (include_tests f)) (Built (include_tags f))
       (Built (exclude_tags f)) = derived f \<and>
     \<not> NameFilter_nonzero (include_suites (derived f)) \<and>
     include_tests (derived f) = include_tests f \<and>
     include_tags (derived f) = include_tags f \<and>
     exclude_tags (derived f) = exclude_tags f \<and>
     Filter_filter_by_suite_name mk f s =
       (case visit mk (FilterV (derived f)) s of
          Inl e \<Rightarrow> Inl e | Inr s' \<Rightarrow> Inr (s', False)) \<and>
     (\<exists>s'. visit mk (FilterV (derived f)) s = Inr s' \<and>
           start_suite mk (FilterV f) s = Inr (s', False) \<and>
           s' = (if test_level f then narrow_tree f s else Filter_end_suite f s) \<and>
           (\<forall>t \<in> set (all_tests s'). test_ok f t))"
    using derived_Filter_init [of mk f] d by_name v st ok by blast
qed

theorem matched_suite_is_visited_by_derived_Filter_witness:
  "NameFilter_nonzero
     (include_suites (Filter_init plain_TagPatterns (Raw (PList [''Top''])) (Raw PNone)
                        (Raw (PStr ''critical'')) (Raw PNone))) \<and>
   SuiteNameFilter_match
     (include_suites (Filter_init plain_TagPatterns (Raw (PList [''Top''])) (Raw PNone)
                        (Raw (PStr ''critical'')) (Raw PNone)))
     (Suite ''Top'' ''Top''
        [Suite ''Other'' ''Top.Other'' []
           [Test ''T1'' ''Top.Other.T1'' [''critical''], Test ''T2'' ''Top.Other.T2'' []]]
        [Test ''T0'' ''Top.T0'' [''critical'']]) = Inr True \<and>
   SuiteNameFilter_match
     (include_suites (Filter_init plain_TagPatterns (Raw (PList [''Top''])) (Raw PNone)
                        (Raw (PStr ''critical'')) (Raw PNone)))
     (Suite ''Other'' ''Top.Other'' []
        [Test ''T1'' ''Top.Other.T1'' [''critical''], Test ''T2'' ''Top.Other.T2'' []]) =
     Inr False \<and>
   start_suite plain_TagPatterns
     (FilterV (Filter_init plain_TagPatterns (Raw (PList [''Top''])) (Raw PNone)
                 (Raw (PStr ''critical'')) (Raw PNone)))
     (Suite ''Top'' ''Top''
        [Suite ''Other'' ''Top.Other'' []
           [Test ''T1'' ''Top.Other.T1'' [''critical''], Test ''T2'' ''Top.Other.T2'' []]]
        [Test ''T0'' ''Top.T0'' [''critical'']]) =
     Inr (Suite ''Top'' ''Top''
            [Suite ''Other'' ''Top.Other'' [] [Test ''T1'' ''Top.Other.T1'' [''critical'']]]
            [Test ''T0'' ''Top.T0'' [''critical'']], False)"
proof -
  let ?f = "Filter_init plain_TagPatterns (Raw (PList [''Top''])) (Raw PNone)
              (Raw (PStr ''critical'')) (Raw PNone)"
  let ?o = "Suite ''Other'' ''Top.Other'' []
              [Test ''T1'' ''Top.Other.T1'' [''critical''], Test ''T2'' ''Top.Other.T2'' []]"
  let ?s = "Suite ''Top'' ''Top'' [?o] [Test ''T0'' ''Top.T0'' [''critical'']]"
  let ?r = "Suite ''Top'' ''Top''
              [Suite ''Other'' ''Top.Other'' [] [Test ''T1'' ''Top.Other.T1'' [''critical'']]]
              [Test ''T0'' ''Top.T0'' [''critical'']]"
  have conf: "NameFilter_nonzero (include_suites ?f)"
    by (simp add: eval_Filter)
  have m: "SuiteNameFilter_match (include_suites ?f) ?s = Inr True"
    by (simp add: eval_Filter eval_match)
  have mo: "SuiteNameFilter_match (include_suites ?f) ?o = Inr False"
    by (simp add: eval_Filter eval_match)
  have r: "(if test_level ?f then narrow_tree ?f ?s else Filter_end_suite ?f ?s) = ?r"
    by (simp add: eval_Filter eval_match eval_test_ok)
  from conf m matched_suite_is_visited_by_derived_Filter [of ?f ?s plain_TagPatterns]
  obtain s' where "start_suite plain_TagPatterns (FilterV ?f) ?s = Inr (s', False)"
    and "s' = (if test_level ?f then narrow_tree ?f ?s else Filter_end_suite ?f ?s)"
    by blast
  with r have "start_suite plain_TagPatterns (FilterV ?f) ?s = Inr (?r, False)"
    by (simp only:)
  with conf m mo show ?thesis
    by (simp only: simp_thms)
qed

subsection \<open>A suite that does not match \<open>include_suites\<close>\<close>

text \<open>
  Claim C5. For every suite that does not match a configured \<open>include_suites\<close>,
  \<open>Filter.start_suite\<close> sets the suite's own test list to empty, whatever lies below the
  suite, and returns \<open>True\<close>. The driver then visits every child suite with the same
  Filter, each on its own, and the visit of the suite ends with \<open>end_suite\<close> on the suite
  with no tests and the visited children.
\<close>

theorem unmatched_suite_loses_tests_and_is_descended:
  "NameFilter_nonzero (include_suites f) \<and>
   SuiteNameFilter_match (include_suites f) s = Inr False \<longrightarrow>
     Filter_filter_by_suite_name mk f s = Inr (set_tests s [], True) \<and>
     start_suite mk (FilterV f) s = Inr (set_tests s [], True) \<and>
     (\<exists>cs. visit_suites mk (FilterV f) (suites s) = Inr cs \<and>
           length cs = length (suites s) \<and>
           (\<forall>i < length cs. visit mk (FilterV f) (suites s ! i) = Inr (cs ! i)) \<and>
           visit mk (FilterV f) s =
             Inr (Filter_end_suite f (Suite (name s) (longname s) cs [])))"
proof (intro impI)
  assume a: "NameFilter_nonzero (include_suites f) \<and>
             SuiteNameFilter_match (include_suites f) s = Inr False"
  let ?cs = "map (select_tree f) (suites s)"
  have by_name: "Filter_filter_by_suite_name mk f s = Inr (set_tests s [], True)"
    using a by (simp add: Filter_filter_by_suite_name.simps)
  have st: "start_suite mk (FilterV f) s = Inr (set_tests s [], True)"
    using a by (simp add: visit_unmatched(1))
  have each: "visit mk (FilterV f) c = Inr (select_tree f c)" for c
    using a by (simp add: visit_selecting_Filter)
  then have vs: "visit_suites mk (FilterV f) (suites s) = Inr ?cs"
    by (intro visit_suites_map) simp
  have v: "visit mk (FilterV f) s =
             Inr (Filter_end_suite f (Suite (name s) (longname s) ?cs []))"
    using a by (simp add: visit_unmatched(2) vs set_suites_def set_tests_def)
  have "length ?cs = length (suites s)"
    by simp
  moreover have "\<forall>i < length ?cs. visit mk (FilterV f) (suites s ! i) = Inr (?cs ! i)"
    by (simp add: each)
  ultimately show "Filter_filter_by_suite_name mk f s = Inr (set_tests s [], True) \<and>
     start_suite mk (FilterV f) s = Inr (set_tests s [], True) \<and>
     (\<exists>cs. visit_suites mk (FilterV f) (suites s) = Inr cs \<and>
           length cs = length (suites s) \<and>
           (\<forall>i < length cs. visit mk (FilterV f) (suites s ! i) = Inr (cs ! i)) \<and>
           visit mk (FilterV f) s =
             Inr (Filter_end_suite f (Suite (name s) (longname s) cs [])))"
    using by_name st vs v by blast
qed

theorem unmatched_suite_loses_tests_and_is_descended_witness:
  "NameFilter_nonzero
     (include_suites (Filter_init plain_TagPatterns (Raw (PList [''Smoke''])) (Raw PNone)
                        (Raw PNone) (Raw PNone))) \<and>
   SuiteNameFilter_match
     (include_suites (Filter_init plain_TagPatterns (Raw (PList [''Smoke''])) (Raw PNone)
                        (Raw PNone) (Raw PNone)))
     (Suite ''Root'' ''Root''
        [Suite ''Smoke'' ''Root.Smoke'' [] [Test ''T1'' ''Root.Smoke.T1'' []]]
        [Test ''T0'' ''Root.T0'' []]) = Inr False \<and>
   start_suite plain_TagPatterns
     (FilterV (Filter_init plain_TagPatterns (Raw (PList [''Smoke''])) (Raw PNone)
                 (Raw PNone) (Raw PNone)))
     (Suite ''Root'' ''Root''
        [Suite ''Smoke'' ''Root.Smoke'' [] [Test ''T1'' ''Root.Smoke.T1'' []]]
        [Test ''T0'' ''Root.T0'' []]) =
     Inr (Suite ''Root'' ''Root''
            [Suite ''Smoke'' ''Root.Smoke'' [] [Test ''T1'' ''Root.Smoke.T1'' []]] [], True) \<and>
   visit plain_TagPatterns
     (FilterV (Filter_init plain_TagPatterns (Raw (PList [''Smoke''])) (Raw PNone)
                 (Raw PNone) (Raw PNone)))
     (Suite ''Root'' ''Root''
        [Suite ''Smoke'' ''Root.Smoke'' [] [Test ''T1'' ''Root.Smoke.T1'' []]]
        [Test ''T0'' ''Root.T0'' []]) =
     Inr (Suite ''Root'' ''Root''
            [Suite ''Smoke'' ''Root.Smoke'' [] [Test ''T1'' ''Root.Smoke.T1'' []]] [])"
proof -
  let ?f = "Filter_init plain_TagPatterns (Raw (PList [''Smoke''])) (Raw PNone)
              (Raw PNone) (Raw PNone)"
  let ?c = "Suite ''Smoke'' ''Root.Smoke'' [] [Test ''T1'' ''Root.Smoke.T1'' []]"
  let ?s = "Suite ''Root'' ''Root'' [?c] [Test ''T0'' ''Root.T0'' []]"
  have conf: "NameFilter_nonzero (include_suites ?f)"
    by (simp add: eval_Filter)
  have m: "SuiteNameFilter_match (include_suites ?f) ?s = Inr False"
    by (simp add: eval_Filter eval_match)
  have child: "visit_suites plain_TagPatterns (FilterV ?f) (suites ?s) = Inr [?c]"
    by (simp add: visit_Filter_closed_form eval_Filter eval_match Filter_end_suite_def
          set_suites_def)
  from conf m unmatched_suite_loses_tests_and_is_descended [of ?f ?s plain_TagPatterns]
  obtain cs where st: "start_suite plain_TagPatterns (FilterV ?f) ?s = Inr (set_tests ?s [], True)"
    and cs: "visit_suites plain_TagPatterns (FilterV ?f) (suites ?s) = Inr cs"
    and v: "visit plain_TagPatterns (FilterV ?f) ?s =
              Inr (Filter_end_suite ?f (Suite (name ?s) (longname ?s) cs []))"
    by blast
  from cs child have "cs = [?c]"
    by (simp only: sum.inject)
  with v have "visit plain_TagPatterns (FilterV ?f) ?s =
                 Inr (Suite ''Root'' ''Root'' [?c] [])"
    by (simp add: Filter_end_suite_def set_suites_def)
  moreover from st have "start_suite plain_TagPatterns (FilterV ?f) ?s =
                           Inr (Suite ''Root'' ''Root'' [?c] [], True)"
    by (simp add: set_tests_def)
  ultimately show ?thesis
    using conf m by (simp only: simp_thms)
qed

end
